theory Spec2Isabelle
  imports Main "HOL-Library.Char_ord" "HOL-Library.List_Lexorder" "HOL-Library.Product_Lexorder"
begin

section \<open>Python strings\<close>

text \<open>
  A Python \<open>str\<close> is a sequence of code points. The model is over \<open>string\<close>, whose
  characters are the code points below 256 (Latin-1): \<open>length\<close> counts code points as
  \<open>len\<close> does, and \<open>\<uacute>\<close> is the single character \<open>CHR 0xFA\<close>. The character
  tables below are those of CPython for this range.
\<close>

definition py_isspace :: "char \<Rightarrow> bool" where
  \<comment> \<open>\<open>str.isspace\<close>, the set \<open>str.strip()\<close> removes and the class \<open>\s\<close> of \<open>re\<close>\<close>
  "py_isspace c = (let n = (of_char c :: nat) in
     (9 \<le> n \<and> n \<le> 13) \<or> (28 \<le> n \<and> n \<le> 32) \<or> n = 133 \<or> n = 160)"

definition is_decimal :: "char \<Rightarrow> bool" where
  \<comment> \<open>the decimal digits \<open>0\<close> to \<open>9\<close>: the class \<open>\d\<close> of \<open>re\<close>\<close>
  "is_decimal c = (let n = (of_char c :: nat) in 48 \<le> n \<and> n \<le> 57)"

definition py_isdigit_char :: "char \<Rightarrow> bool" where
  \<comment> \<open>\<open>str.isdigit\<close> on one character: the decimal digits and the superscripts 1, 2, 3\<close>
  "py_isdigit_char c = (let n = (of_char c :: nat) in
     (48 \<le> n \<and> n \<le> 57) \<or> n = 178 \<or> n = 179 \<or> n = 185)"

definition is_word_char :: "char \<Rightarrow> bool" where
  \<comment> \<open>the class \<open>\w\<close> of \<open>re\<close>: alphanumeric characters and the underscore\<close>
  "is_word_char c = (let n = (of_char c :: nat) in
     (48 \<le> n \<and> n \<le> 57) \<or> (65 \<le> n \<and> n \<le> 90) \<or> n = 95 \<or> (97 \<le> n \<and> n \<le> 122)
     \<or> n = 170 \<or> n = 178 \<or> n = 179 \<or> n = 181 \<or> n = 185 \<or> n = 186
     \<or> (188 \<le> n \<and> n \<le> 190) \<or> (192 \<le> n \<and> n \<noteq> 215 \<and> n \<noteq> 247))"

definition py_lower_char :: "char \<Rightarrow> char" where
  "py_lower_char c = (let n = (of_char c :: nat) in
     if (65 \<le> n \<and> n \<le> 90) \<or> (192 \<le> n \<and> n \<le> 222 \<and> n \<noteq> 215)
     then char_of (n + 32) else c)"

definition py_lower :: "string \<Rightarrow> string" where
  "py_lower s = map py_lower_char s"

definition py_strip :: "string \<Rightarrow> string" where
  "py_strip s = rev (dropWhile py_isspace (rev (dropWhile py_isspace s)))"

definition py_isdigit :: "string \<Rightarrow> bool" where
  \<comment> \<open>\<open>str.isdigit()\<close>: false on the empty string\<close>
  "py_isdigit s = (s \<noteq> [] \<and> list_all py_isdigit_char s)"

definition digit_val :: "char \<Rightarrow> nat" where
  "digit_val c = of_char c - 48"

text \<open>
  \<open>int(s)\<close>: surrounding whitespace is dropped, a sign may come first, then decimal
  digits with single underscores between them. \<open>None\<close> stands for \<open>ValueError\<close>.
  The whitespace \<open>int\<close> accepts is narrower than \<open>str.isspace\<close> (the separators
  28 to 31 are refused).
\<close>

definition int_space :: "char \<Rightarrow> bool" where
  "int_space c = (let n = (of_char c :: nat) in
     (9 \<le> n \<and> n \<le> 13) \<or> n = 32 \<or> n = 133 \<or> n = 160)"

fun int_digits :: "string \<Rightarrow> nat \<Rightarrow> nat option" where
  "int_digits [] acc = Some acc"
| "int_digits [c] acc = (if is_decimal c then Some (10 * acc + digit_val c) else None)"
| "int_digits (c # d # ds) acc =
     (if is_decimal c then int_digits (d # ds) (10 * acc + digit_val c)
      else if c = CHR ''_'' \<and> is_decimal d then int_digits ds (10 * acc + digit_val d)
      else None)"

definition int_unsigned :: "string \<Rightarrow> nat option" where
  "int_unsigned s =
     (case s of [] \<Rightarrow> None
      | c # cs \<Rightarrow> if is_decimal c then int_digits cs (digit_val c) else None)"

definition py_int :: "string \<Rightarrow> int option" where
  "py_int s =
     (let t = rev (dropWhile int_space (rev (dropWhile int_space s)))
      in case t of
           [] \<Rightarrow> None
         | c # cs \<Rightarrow>
             if c = CHR ''-'' then map_option (\<lambda>n. - int n) (int_unsigned cs)
             else if c = CHR ''+'' then map_option int (int_unsigned cs)
             else map_option int (int_unsigned t))"

fun nat_digits :: "nat \<Rightarrow> string" where
  "nat_digits n =
     (if n < 10 then [char_of (48 + n)]
      else nat_digits (n div 10) @ [char_of (48 + n mod 10)])"

definition py_str_int :: "int \<Rightarrow> string" where
  \<comment> \<open>\<open>str(n)\<close> of an integer\<close>
  "py_str_int i = (if i < 0 then CHR ''-'' # nat_digits (nat (- i)) else nat_digits (nat i))"

datatype py_exn = ValueError | IndexError | TypeError | AttributeError | KeyError

section \<open>The regular expressions of module re\<close>

text \<open>
  The patterns of the program use literals, the classes \<open>\d \s \w .\<close> and bracket
  sets, repetition of one class (greedy or lazy), optional groups, alternation,
  capturing groups, \<open>\b\<close> and negative lookahead. \<open>rmatch r f s i c\<close> lists, in the
  order the backtracking matcher of \<open>re\<close> tries them, every way \<open>r\<close> matches \<open>s\<close> from
  position \<open>i\<close>: the end position and the captures. The first entry is the match
  \<open>re\<close> reports.
\<close>

record re_flags =
  ignorecase :: bool
  dotall :: bool

datatype citem = IChr char | IDigit | ISpace | IWord

datatype cclass = One citem | OneOf "citem list" | Dot

fun item_match :: "re_flags \<Rightarrow> citem \<Rightarrow> char \<Rightarrow> bool" where
  "item_match f (IChr p) c =
     (if ignorecase f then py_lower_char c = py_lower_char p else c = p)"
| "item_match f IDigit c = is_decimal c"
| "item_match f ISpace c = py_isspace c"
| "item_match f IWord c = is_word_char c"

fun cls_match :: "re_flags \<Rightarrow> cclass \<Rightarrow> char \<Rightarrow> bool" where
  "cls_match f (One a) c = item_match f a c"
| "cls_match f (OneOf as) c = list_ex (\<lambda>a. item_match f a c) as"
| "cls_match f Dot c = (dotall f \<or> c \<noteq> CHR 0x0A)"

datatype regex =
    Eps
  | Cls cclass
  | Rep cclass nat "nat option" bool
  | Seq regex regex
  | Alt regex regex
  | Opt regex
  | Grp nat regex
  | WordB
  | NegLook regex

type_synonym caps = "string option list"

definition word_at :: "string \<Rightarrow> nat \<Rightarrow> bool" where
  "word_at s i = (i < length s \<and> is_word_char (s ! i))"

definition at_boundary :: "string \<Rightarrow> nat \<Rightarrow> bool" where
  "at_boundary s i = ((0 < i \<and> word_at s (i - 1)) \<noteq> word_at s i)"

definition rep_counts ::
  "re_flags \<Rightarrow> cclass \<Rightarrow> nat \<Rightarrow> nat option \<Rightarrow> bool \<Rightarrow> string \<Rightarrow> nat \<Rightarrow> nat list" where
  \<comment> \<open>\<open>Rep k lo hi greedy\<close> is \<open>k{lo,hi}\<close>: the numbers of characters it may take, longest
      first when greedy and shortest first when lazy\<close>
  "rep_counts f k lo hi greedy s i =
     (let run = length (takeWhile (cls_match f k) (drop i s));
          top = (case hi of None \<Rightarrow> run | Some h \<Rightarrow> min h run);
          ns = [lo..<Suc top]
      in if greedy then rev ns else ns)"

primrec rmatch :: "regex \<Rightarrow> re_flags \<Rightarrow> string \<Rightarrow> nat \<Rightarrow> caps \<Rightarrow> (nat \<times> caps) list" where
  "rmatch Eps f s i c = [(i, c)]"
| "rmatch (Cls k) f s i c =
     (if i < length s \<and> cls_match f k (s ! i) then [(Suc i, c)] else [])"
| "rmatch (Rep k lo hi greedy) f s i c =
     map (\<lambda>n. (i + n, c)) (rep_counts f k lo hi greedy s i)"
| "rmatch (Seq a b) f s i c =
     concat (map (\<lambda>(j, c'). rmatch b f s j c') (rmatch a f s i c))"
| "rmatch (Alt a b) f s i c = rmatch a f s i c @ rmatch b f s i c"
| "rmatch (Opt a) f s i c = rmatch a f s i c @ [(i, c)]"
| "rmatch (Grp g a) f s i c =
     map (\<lambda>(j, c'). (j, c'[g - 1 := Some (take (j - i) (drop i s))])) (rmatch a f s i c)"
| "rmatch WordB f s i c = (if at_boundary s i then [(i, c)] else [])"
| "rmatch (NegLook a) f s i c = (if rmatch a f s i c = [] then [(i, c)] else [])"

primrec ngroups :: "regex \<Rightarrow> nat" where
  "ngroups Eps = 0"
| "ngroups (Cls k) = 0"
| "ngroups (Rep k lo hi greedy) = 0"
| "ngroups (Seq a b) = max (ngroups a) (ngroups b)"
| "ngroups (Alt a b) = max (ngroups a) (ngroups b)"
| "ngroups (Opt a) = ngroups a"
| "ngroups (Grp g a) = max g (ngroups a)"
| "ngroups WordB = 0"
| "ngroups (NegLook a) = ngroups a"

record pattern =
  p_regex :: regex
  p_flags :: re_flags

record re_match =
  m_start :: nat
  m_end :: nat
  m_groups :: caps

definition match_at :: "pattern \<Rightarrow> string \<Rightarrow> nat \<Rightarrow> re_match option" where
  "match_at p s i =
     (case rmatch (p_regex p) (p_flags p) s i (replicate (ngroups (p_regex p)) None) of
        [] \<Rightarrow> None
      | (j, c) # _ \<Rightarrow> Some \<lparr>m_start = i, m_end = j, m_groups = c\<rparr>)"

text \<open>
  \<open>re.finditer\<close>: the leftmost match from the current position, then on from its end.
  Every pattern of the program starts with a literal, so no match is empty; after an
  empty match the scan moves one character on.
\<close>

function finditer_from :: "pattern \<Rightarrow> string \<Rightarrow> nat \<Rightarrow> re_match list" where
  "finditer_from p s i =
     (if length s < i then []
      else case match_at p s i of
             None \<Rightarrow> finditer_from p s (Suc i)
           | Some m \<Rightarrow> m # finditer_from p s (if i < m_end m then m_end m else Suc i))"
  by pat_completeness auto
termination
  by (relation "measure (\<lambda>(p, s, i). Suc (length s) - i)") auto

definition finditer :: "pattern \<Rightarrow> string \<Rightarrow> re_match list" where
  "finditer p s = finditer_from p s 0"

definition re_search :: "pattern \<Rightarrow> string \<Rightarrow> re_match option" where
  \<comment> \<open>\<open>re.search\<close>: the first match of the scan, if any\<close>
  "re_search p s = (case finditer p s of [] \<Rightarrow> None | m # _ \<Rightarrow> Some m)"

definition group :: "re_match \<Rightarrow> nat \<Rightarrow> py_exn + string option" where
  \<comment> \<open>\<open>m.group(g)\<close> for \<open>g \<ge> 1\<close>: \<open>None\<close> when the group took no part in the match,
      \<open>IndexError\<close> when the pattern has no such group\<close>
  "group m g =
     (if 0 < g \<and> g \<le> length (m_groups m) then Inr (m_groups m ! (g - 1))
      else Inl IndexError)"

definition match_text :: "string \<Rightarrow> re_match \<Rightarrow> string" where
  \<comment> \<open>\<open>m.group(0)\<close>\<close>
  "match_text s m = take (m_end m - m_start m) (drop (m_start m) s)"

function sub_from :: "pattern \<Rightarrow> string \<Rightarrow> string \<Rightarrow> nat \<Rightarrow> string" where
  "sub_from p repl s i =
     (if length s \<le> i then []
      else case match_at p s i of
             None \<Rightarrow> (s ! i) # sub_from p repl s (Suc i)
           | Some m \<Rightarrow>
               if i < m_end m then repl @ sub_from p repl s (m_end m)
               else repl @ (s ! i) # sub_from p repl s (Suc i))"
  by pat_completeness auto
termination
  by (relation "measure (\<lambda>(p, repl, s, i). length s - i)") auto

definition re_sub :: "pattern \<Rightarrow> string \<Rightarrow> string \<Rightarrow> string" where
  \<comment> \<open>\<open>re.sub(p, repl, s)\<close> for a replacement without backslashes and a pattern that
      does not match the empty string\<close>
  "re_sub p repl s = sub_from p repl s 0"

definition lit :: "string \<Rightarrow> regex" where
  "lit cs = foldr (\<lambda>ch r. Seq (Cls (One (IChr ch))) r) cs Eps"

definition seqs :: "regex list \<Rightarrow> regex" where
  "seqs rs = foldr Seq rs Eps"

section \<open>The pattern tables\<close>

text \<open>
  The module-level patterns of \<open>logic.py\<close>, each written as the syntax tree \<open>re\<close>
  compiles it to. \<open>flags_IU\<close> is \<open>re.IGNORECASE | re.UNICODE\<close> (for a \<open>str\<close> pattern,
  \<open>re.UNICODE\<close> is the default and \<open>(?i)\<close> at the start is \<open>re.IGNORECASE\<close>).
\<close>

definition flags_IU :: re_flags where
  "flags_IU = \<lparr>ignorecase = True, dotall = False\<rparr>"

definition flags_IS :: re_flags where
  \<comment> \<open>\<open>re.IGNORECASE | re.DOTALL\<close>\<close>
  "flags_IS = \<lparr>ignorecase = True, dotall = True\<rparr>"

definition flags_S :: re_flags where
  \<comment> \<open>\<open>re.DOTALL\<close>\<close>
  "flags_S = \<lparr>ignorecase = False, dotall = True\<rparr>"

definition s0 :: regex where
  \<comment> \<open>\<open>\s*\<close>\<close>
  "s0 = Rep (One ISpace) 0 None True"

definition s1 :: regex where
  \<comment> \<open>\<open>\s+\<close>\<close>
  "s1 = Rep (One ISpace) 1 None True"

definition d1 :: regex where
  \<comment> \<open>\<open>\d+\<close>\<close>
  "d1 = Rep (One IDigit) 1 None True"

definition w1 :: regex where
  \<comment> \<open>\<open>\w+\<close>\<close>
  "w1 = Rep (One IWord) 1 None True"

definition any_opt :: regex where
  \<comment> \<open>\<open>.?\<close>\<close>
  "any_opt = Rep Dot 0 (Some 1) True"

definition u_acute :: cclass where
  \<comment> \<open>\<open>[\<uacute>u]\<close>\<close>
  "u_acute = OneOf [IChr (CHR 0xFA), IChr CHR ''u'']"

definition esc_head :: regex where
  \<comment> \<open>\<open>(?:Escritura|Esc)\s*(?:P[\<uacute>u]blica)?\s*\<close>\<close>
  "esc_head = seqs [Alt (lit ''Escritura'') (lit ''Esc''), s0,
                    Opt (seqs [lit ''P'', Cls u_acute, lit ''blica'']), s0]"

definition acta_head :: regex where
  \<comment> \<open>\<open>Acta\s+Fuera\s+de\s+Protocolo\s+\<close>\<close>
  "acta_head = seqs [lit ''Acta'', s1, lit ''Fuera'', s1, lit ''de'', s1, lit ''Protocolo'', s1]"

definition actas_head :: regex where
  \<comment> \<open>\<open>Acta(?:s)?\s+Fuera\s+de\s+Protocolo\s+\<close>\<close>
  "actas_head = seqs [lit ''Acta'', Opt (lit ''s''), s1, lit ''Fuera'', s1, lit ''de'', s1,
                      lit ''Protocolo'', s1]"

definition numeros_kw :: regex where
  \<comment> \<open>\<open>(?:N[u\<uacute>]meros?|Nos.?|N\<degree>)\<close>\<close>
  "numeros_kw =
     Alt (seqs [lit ''N'', Cls u_acute, lit ''mero'', Opt (lit ''s'')])
         (Alt (seqs [lit ''Nos'', any_opt]) (lit [CHR ''N'', CHR 0xB0]))"

definition numero_kw :: regex where
  \<comment> \<open>\<open>(?:N[u\<uacute>]mero|No.?|N\<degree>)\<close>\<close>
  "numero_kw =
     Alt (seqs [lit ''N'', Cls u_acute, lit ''mero''])
         (Alt (seqs [lit ''No'', any_opt]) (lit [CHR ''N'', CHR 0xB0]))"

definition sep_opt :: regex where
  \<comment> \<open>\<open>[-:\s]?\<close>\<close>
  "sep_opt = Rep (OneOf [IChr CHR ''-'', IChr CHR '':'', ISpace]) 0 (Some 1) True"

definition instr_head :: regex where
  \<comment> \<open>\<open>Instrumentos\s*-\s*\<close>\<close>
  "instr_head = seqs [lit ''Instrumentos'', s0, lit ''-'', s0]"

definition comma :: regex where
  \<comment> \<open>\<open>\s*,\s*\<close>\<close>
  "comma = seqs [s0, lit '','', s0]"

definition act_kw :: regex where
  \<comment> \<open>\<open>Act(?:a)?\s+\<close>\<close>
  "act_kw = seqs [lit ''Act'', Opt (lit ''a''), s1]"

definition esc_kw :: regex where
  \<comment> \<open>\<open>Esc\s+\<close>\<close>
  "esc_kw = seqs [lit ''Esc'', s1]"

definition REGEX_ESCRITURA_RANGE :: pattern where
  \<comment> \<open>\<open>(?:Escritura|Esc)\s*(?:P[\<uacute>u]blica)?\s*(?:N[u\<uacute>]meros?|Nos.?|N\<degree>)\s+(\d+)\s+A\s+(\d+)\b\<close>\<close>
  "REGEX_ESCRITURA_RANGE =
     \<lparr>p_regex = seqs [esc_head, numeros_kw, s1, Grp 1 d1, s1, lit ''A'', s1, Grp 2 d1, WordB],
      p_flags = flags_IU\<rparr>"

definition REGEX_ACTA_RANGE :: pattern where
  \<comment> \<open>\<open>Acta(?:s)?\s+Fuera\s+de\s+Protocolo\s+(?:N[u\<uacute>]meros?|Nos.?|N\<degree>)\s+(\d+)\s+A\s+(\d+)\b\<close>\<close>
  "REGEX_ACTA_RANGE =
     \<lparr>p_regex = seqs [actas_head, numeros_kw, s1, Grp 1 d1, s1, lit ''A'', s1, Grp 2 d1, WordB],
      p_flags = flags_IU\<rparr>"

definition REGEX_ACTA_RANGE_AL :: pattern where
  \<comment> \<open>\<open>Acta(?:s)?\s+Fuera\s+de\s+Protocolo\s+N[u\<uacute>]meros?\s+(\d+)\s+AL\s+(\d+)\b\<close>\<close>
  "REGEX_ACTA_RANGE_AL =
     \<lparr>p_regex = seqs [actas_head, lit ''N'', Cls u_acute, lit ''mero'', Opt (lit ''s''), s1,
                       Grp 1 d1, s1, lit ''AL'', s1, Grp 2 d1, WordB],
      p_flags = flags_IU\<rparr>"

definition REGEX_ESCRITURA_LIST_Y :: pattern where
  \<comment> \<open>\<open>(?:Escritura|Esc)\s*(?:P[\<uacute>u]blica)?\s*(?:N[u\<uacute>]meros?|Nos.?|N\<degree>)\s+(\d+)\s+Y\s+(\d+)\b\<close>\<close>
  "REGEX_ESCRITURA_LIST_Y =
     \<lparr>p_regex = seqs [esc_head, numeros_kw, s1, Grp 1 d1, s1, lit ''Y'', s1, Grp 2 d1, WordB],
      p_flags = flags_IU\<rparr>"

definition REGEX_ACTA_LIST_Y :: pattern where
  \<comment> \<open>\<open>Acta(?:s)?\s+Fuera\s+de\s+Protocolo\s+(?:N[u\<uacute>]meros?|Nos.?|N\<degree>)\s+(\d+)\s+Y\s+(\d+)\b\<close>\<close>
  "REGEX_ACTA_LIST_Y =
     \<lparr>p_regex = seqs [actas_head, numeros_kw, s1, Grp 1 d1, s1, lit ''Y'', s1, Grp 2 d1, WordB],
      p_flags = flags_IU\<rparr>"

definition slash_num :: "nat \<Rightarrow> regex" where
  \<comment> \<open>\<open>(?:/(\d+))?\<close> with the group's number\<close>
  "slash_num g = Opt (seqs [lit ''/'', Grp g d1])"

definition REGEX_ACTA_SPECIAL :: pattern where
  \<comment> \<open>\<open>Acta\s+Fuera\s+de\s+Protocolo\s+N[u\<uacute>]mero\s+(\d+)(?:/(\d+))?\<close> ... (nine optional
      segments) ... \<open>\b\<close>\<close>
  "REGEX_ACTA_SPECIAL =
     \<lparr>p_regex = seqs [acta_head, lit ''N'', Cls u_acute, lit ''mero'', s1, Grp 1 d1,
                       slash_num 2, slash_num 3, slash_num 4, slash_num 5, slash_num 6,
                       slash_num 7, slash_num 8, slash_num 9, slash_num 10, WordB],
      p_flags = flags_IU\<rparr>"

definition REGEX_ESCRITURA_SINGLE :: pattern where
  \<comment> \<open>\<open>(?:Escritura|Esc)\s*(?:P[\<uacute>u]blica)?\s*(?:N[u\<uacute>]mero|No.?|N\<degree>)?\s*[-:\s]?\s*(\d+)\b(?!\s+A\s+\d+)(?!/)\<close>\<close>
  "REGEX_ESCRITURA_SINGLE =
     \<lparr>p_regex = seqs [esc_head, Opt numero_kw, s0, sep_opt, s0, Grp 1 d1, WordB,
                       NegLook (seqs [s1, lit ''A'', s1, d1]), NegLook (lit ''/'')],
      p_flags = flags_IU\<rparr>"

definition REGEX_ACTA_SINGLE :: pattern where
  \<comment> \<open>\<open>Acta\s+Fuera\s+de\s+Protocolo\s+(?:N[u\<uacute>]mero|No.?|N\<degree>)?\s*[-:\s]?\s*(\d+)\b(?!\s+(?:A|AL)\s+\d+)\<close>\<close>
  "REGEX_ACTA_SINGLE =
     \<lparr>p_regex = seqs [acta_head, Opt numero_kw, s0, sep_opt, s0, Grp 1 d1, WordB,
                       NegLook (seqs [s1, Alt (lit ''A'') (lit ''AL''), s1, d1])],
      p_flags = flags_IU\<rparr>"

definition REGEX_INSTRUMENTOS_ESC_SINGLE :: pattern where
  \<comment> \<open>\<open>Instrumentos\s*-\s*Esc\s+(\d+)\b(?!\s*,)\<close>\<close>
  "REGEX_INSTRUMENTOS_ESC_SINGLE =
     \<lparr>p_regex = seqs [instr_head, esc_kw, Grp 1 d1, WordB, NegLook (seqs [s0, lit '',''])],
      p_flags = flags_IU\<rparr>"

definition REGEX_INSTRUMENTOS_ESC_COMMA :: pattern where
  \<comment> \<open>\<open>Instrumentos\s*-\s*Esc\s+(\d+)(?:\s*,\s*Esc\s+(\d+))?(?:\s*,\s*(\d+))?(?:\s*,\s*(\d+))?(?:\s*,\s*(\d+))?\<close>\<close>
  "REGEX_INSTRUMENTOS_ESC_COMMA =
     \<lparr>p_regex = seqs [instr_head, esc_kw, Grp 1 d1,
                       Opt (seqs [comma, esc_kw, Grp 2 d1]),
                       Opt (seqs [comma, Grp 3 d1]),
                       Opt (seqs [comma, Grp 4 d1]),
                       Opt (seqs [comma, Grp 5 d1])],
      p_flags = flags_IU\<rparr>"

definition REGEX_INSTRUMENTOS_ACT_SINGLE :: pattern where
  \<comment> \<open>\<open>Instrumentos\s*-\s*Act(?:a)?\s+(\d+)\b(?!\s*,)\<close>\<close>
  "REGEX_INSTRUMENTOS_ACT_SINGLE =
     \<lparr>p_regex = seqs [instr_head, act_kw, Grp 1 d1, WordB, NegLook (seqs [s0, lit '',''])],
      p_flags = flags_IU\<rparr>"

definition REGEX_INSTRUMENTOS_ACT_COMMA :: pattern where
  \<comment> \<open>\<open>Instrumentos\s*-\s*Act(?:a)?\s+(\d+)(?:\s*,\s*Act(?:a)?\s+(\d+))?(?:\s*,\s*(\d+))?(?:\s*,\s*(\d+))?(?:\s*,\s*(\d+))?\<close>\<close>
  "REGEX_INSTRUMENTOS_ACT_COMMA =
     \<lparr>p_regex = seqs [instr_head, act_kw, Grp 1 d1,
                       Opt (seqs [comma, act_kw, Grp 2 d1]),
                       Opt (seqs [comma, Grp 3 d1]),
                       Opt (seqs [comma, Grp 4 d1]),
                       Opt (seqs [comma, Grp 5 d1])],
      p_flags = flags_IU\<rparr>"

definition REGEX_INSTRUMENTOS_COMBINED :: pattern where
  \<comment> \<open>\<open>Instrumentos\s*-\s*(?:Esc\s+(\d+)(?:\s*,\s*(?:Esc\s+)?(\d+))?(?:\s*,\s*(?:Esc\s+)?(\d+))?)?\<close>
      \<open>(?:\s*,\s*Act(?:a)?\s+(\d+)(?:\s*,\s*(?:Act(?:a)?\s+)?(\d+))?(?:\s*,\s*(?:Act(?:a)?\s+)?(\d+))?)?\<close>\<close>
  "REGEX_INSTRUMENTOS_COMBINED =
     \<lparr>p_regex = seqs [instr_head,
                       Opt (seqs [esc_kw, Grp 1 d1,
                                  Opt (seqs [comma, Opt esc_kw, Grp 2 d1]),
                                  Opt (seqs [comma, Opt esc_kw, Grp 3 d1])]),
                       Opt (seqs [comma, act_kw, Grp 4 d1,
                                  Opt (seqs [comma, Opt act_kw, Grp 5 d1]),
                                  Opt (seqs [comma, Opt act_kw, Grp 6 d1])])],
      p_flags = flags_IU\<rparr>"

definition REGEX_FOLIO_DBA :: pattern where
  \<comment> \<open>\<open>(?i)\bSerie\s(?:RP)?\sFolio\s(\d+)\b\<close>\<close>
  "REGEX_FOLIO_DBA =
     \<lparr>p_regex = seqs [WordB, lit ''Serie'', Cls (One ISpace), Opt (lit ''RP''), Cls (One ISpace),
                       lit ''Folio'', Cls (One ISpace), Grp 1 d1, WordB],
      p_flags = flags_IU\<rparr>"

definition REGEX_FOLIO_DBA_ALT :: pattern where
  \<comment> \<open>\<open>(?i)DATOS\s+CFDI.?Folio:\s(\d+)\<close>, searched with \<open>re.IGNORECASE | re.DOTALL\<close>\<close>
  "REGEX_FOLIO_DBA_ALT =
     \<lparr>p_regex = seqs [lit ''DATOS'', s1, lit ''CFDI'', any_opt, lit ''Folio:'', Cls (One ISpace),
                       Grp 1 d1],
      p_flags = flags_IS\<rparr>"

definition REGEX_FOLIO_TOTALNOT :: pattern where
  \<comment> \<open>\<open>(?i)Folio\s+interno:\s*(\w+)\b\<close>\<close>
  "REGEX_FOLIO_TOTALNOT =
     \<lparr>p_regex = seqs [lit ''Folio'', s1, lit ''interno:'', s0, Grp 1 w1, WordB],
      p_flags = flags_IU\<rparr>"

definition REGEX_FOLIO_DBA_FILENAME :: pattern where
  \<comment> \<open>\<open>_(\d{1,5})_\<close>\<close>
  "REGEX_FOLIO_DBA_FILENAME =
     \<lparr>p_regex = seqs [lit ''_'', Grp 1 (Rep (One IDigit) 1 (Some 5) True), lit ''_''],
      p_flags = flags_IU\<rparr>"

definition contpaq_simple_pattern :: pattern where
  \<comment> \<open>\<open>\bFOLIO:\s*(\w+)\b\<close> with \<open>re.IGNORECASE\<close>\<close>
  "contpaq_simple_pattern =
     \<lparr>p_regex = seqs [WordB, lit ''FOLIO:'', s0, Grp 1 w1, WordB], p_flags = flags_IU\<rparr>"

definition folio_fiscal_pattern :: pattern where
  \<comment> \<open>\<open>\bFolio\s+fiscal\b\<close> with \<open>re.IGNORECASE\<close>\<close>
  "folio_fiscal_pattern =
     \<lparr>p_regex = seqs [WordB, lit ''Folio'', s1, lit ''fiscal'', WordB], p_flags = flags_IU\<rparr>"

definition date_tail :: regex where
  \<comment> \<open>\<open>\s*:\s*\d{1,2}/\d{1,2}/\d{2,4}\<close>\<close>
  "date_tail = seqs [s0, lit '':'', s0, Rep (One IDigit) 1 (Some 2) True, lit ''/'',
                     Rep (One IDigit) 1 (Some 2) True, lit ''/'', Rep (One IDigit) 2 (Some 4) True]"

definition exclude_patterns :: "pattern list" where
  \<comment> \<open>\<open>Fecha\s+(?:de\s+)?Escritura\s*:\s*\d{1,2}/\d{1,2}/\d{2,4}\<close> and the same for
      \<open>Acta\<close>, substituted with \<open>re.IGNORECASE\<close>\<close>
  "exclude_patterns =
     [\<lparr>p_regex = seqs [lit ''Fecha'', s1, Opt (seqs [lit ''de'', s1]), lit ''Escritura'', date_tail],
       p_flags = flags_IU\<rparr>,
      \<lparr>p_regex = seqs [lit ''Fecha'', s1, Opt (seqs [lit ''de'', s1]), lit ''Acta'', date_tail],
       p_flags = flags_IU\<rparr>]"

section \<open>The folio resolver\<close>

definition truthy :: "string option \<Rightarrow> bool" where
  \<comment> \<open>the truth value of a variable that holds \<open>None\<close> or a \<open>str\<close>\<close>
  "truthy v = (case v of None \<Rightarrow> False | Some t \<Rightarrow> t \<noteq> [])"

definition dba_filename_folio :: "string option \<Rightarrow> py_exn + string option" where
  \<comment> \<open>the filename branch of \<open>DBA\<close>: \<open>folio_candidate.isdigit()\<close> on \<open>None\<close> would raise
      \<open>AttributeError\<close>\<close>
  "dba_filename_folio filename =
     (case filename of
        None \<Rightarrow> Inr None
      | Some name \<Rightarrow>
          if name = [] then Inr None
          else (case re_search REGEX_FOLIO_DBA_FILENAME name of
                  None \<Rightarrow> Inr None
                | Some filename_match \<Rightarrow>
                    (case group filename_match 1 of
                       Inl e \<Rightarrow> Inl e
                     | Inr None \<Rightarrow> Inl AttributeError
                     | Inr (Some folio_candidate) \<Rightarrow>
                         if py_isdigit folio_candidate \<and> length folio_candidate < 20
                         then Inr (Some folio_candidate) else Inr None)))"

definition dba_text_folio :: "string \<Rightarrow> py_exn + string option" where
  "dba_text_folio text =
     (case re_search REGEX_FOLIO_DBA text of
        Some m \<Rightarrow> group m 1
      | None \<Rightarrow>
          (case re_search REGEX_FOLIO_DBA_ALT text of
             Some match_alt \<Rightarrow> group match_alt 1
           | None \<Rightarrow> Inr None))"

definition preceding_text :: "string \<Rightarrow> nat \<Rightarrow> string" where
  \<comment> \<open>\<open>text[max(0, start_index - 30) : start_index]\<close>\<close>
  "preceding_text text start_index = drop (start_index - 30) (take start_index text)"

definition preceded_by_fiscal :: "string \<Rightarrow> re_match \<Rightarrow> bool" where
  \<comment> \<open>\<open>re.search(r'\bFolio\s+fiscal\b', preceding_text, re.IGNORECASE)\<close> finds a match\<close>
  "preceded_by_fiscal text m =
     (re_search folio_fiscal_pattern (preceding_text text (m_start m)) \<noteq> None)"

fun contpaq_scan :: "string \<Rightarrow> re_match list \<Rightarrow> py_exn + string option" where
  \<comment> \<open>the loop over \<open>reversed(matches)\<close>, left at the first match that is accepted\<close>
  "contpaq_scan text [] = Inr None"
| "contpaq_scan text (m # ms) =
     (if \<not> preceded_by_fiscal text m then group m 1 else contpaq_scan text ms)"

definition contpaq_folio :: "string \<Rightarrow> py_exn + string option" where
  "contpaq_folio text =
     (case contpaq_scan text (rev (finditer contpaq_simple_pattern text)) of
        Inl e \<Rightarrow> Inl e
      | Inr candidate_folio \<Rightarrow> Inr (if truthy candidate_folio then candidate_folio else None))"

definition folio_candidate ::
  "string option \<Rightarrow> string \<Rightarrow> string option \<Rightarrow> py_exn + string option" where
  \<comment> \<open>the variable \<open>folio\<close> when the final checks are reached\<close>
  "folio_candidate text invoice_type filename =
     (if invoice_type = ''DBA'' then
        (case dba_filename_folio filename of
           Inl e \<Rightarrow> Inl e
         | Inr folio \<Rightarrow>
             (case text of
                Some t \<Rightarrow> if \<not> truthy folio \<and> t \<noteq> [] then dba_text_folio t else Inr folio
              | None \<Rightarrow> Inr folio))
      else if invoice_type = ''TOTALNOT'' then
        (case text of
           Some t \<Rightarrow>
             if t \<noteq> [] then
               (case re_search REGEX_FOLIO_TOTALNOT t of
                  Some m \<Rightarrow> group m 1
                | None \<Rightarrow> Inr None)
             else Inr None
         | None \<Rightarrow> Inr None)
      else if invoice_type = ''CONTPAQ'' then
        (case text of
           Some t \<Rightarrow> if t \<noteq> [] then contpaq_folio t else Inr None
         | None \<Rightarrow> Inr None)
      else Inr None)"

definition final_checks :: "string option \<Rightarrow> string" where
  "final_checks folio =
     (case folio of
        None \<Rightarrow> ''NOT_FOUND''
      | Some f \<Rightarrow>
          if f \<noteq> [] \<and> 20 < length f then ''FOLIO_FISCAL_SUSPECTED''
          else if f = [] then ''NOT_FOUND''
          else f)"

definition find_folio :: "string option \<Rightarrow> string \<Rightarrow> string option \<Rightarrow> py_exn + string" where
  "find_folio text invoice_type filename =
     (if \<not> truthy text \<and> invoice_type \<noteq> ''DBA'' then Inr ''NOT_FOUND''
      else case folio_candidate text invoice_type filename of
             Inl e \<Rightarrow> Inl e
           | Inr folio \<Rightarrow> Inr (final_checks folio))"

section \<open>The reference finders\<close>

record reference =
  Type :: string
  Number :: string

record finder_state =
  references :: "reference list"
  found_escritura_numbers :: "string set"
  found_acta_numbers :: "string set"

datatype found_ref = Found_escritura | Found_acta

text \<open>
  A row of a pattern table holds a reference to one of the two sets of claimed numbers;
  \<open>found_ref\<close> names which. A step of a loop that may raise ends in \<open>Done\<close> or in
  \<open>Raised\<close>, both with the state as the step left it: what was appended before an
  exception stays appended.
\<close>

datatype 's outcome = Done 's | Raised py_exn 's

definition found_set :: "found_ref \<Rightarrow> finder_state \<Rightarrow> string set" where
  "found_set w st =
     (case w of Found_escritura \<Rightarrow> found_escritura_numbers st
              | Found_acta \<Rightarrow> found_acta_numbers st)"

definition found_add :: "found_ref \<Rightarrow> string \<Rightarrow> finder_state \<Rightarrow> finder_state" where
  "found_add w num_str st =
     (case w of
        Found_escritura \<Rightarrow> st\<lparr>found_escritura_numbers := insert num_str (found_escritura_numbers st)\<rparr>
      | Found_acta \<Rightarrow> st\<lparr>found_acta_numbers := insert num_str (found_acta_numbers st)\<rparr>)"

definition claim :: "string \<Rightarrow> found_ref \<Rightarrow> string \<Rightarrow> finder_state \<Rightarrow> finder_state" where
  \<comment> \<open>\<open>if num_str not in found_set: references.append(...); found_set.add(num_str)\<close>\<close>
  "claim type_name w num_str st =
     (if num_str \<in> found_set w st then st
      else found_add w num_str
             (st\<lparr>references := references st @ [\<lparr>Type = type_name, Number = num_str\<rparr>]\<rparr>))"

definition claim_checked :: "string \<Rightarrow> found_ref \<Rightarrow> string \<Rightarrow> finder_state \<Rightarrow> finder_state" where
  \<comment> \<open>\<open>if num_str and num_str.isdigit() and num_str not in found_set: ...\<close>\<close>
  "claim_checked type_name w num_str st =
     (if num_str \<noteq> [] \<and> py_isdigit num_str then claim type_name w num_str st else st)"

fun for_each :: "('a \<Rightarrow> 's \<Rightarrow> 's outcome) \<Rightarrow> 'a list \<Rightarrow> 's \<Rightarrow> 's outcome" where
  \<comment> \<open>a \<open>for\<close> loop whose body may raise\<close>
  "for_each body [] st = Done st"
| "for_each body (x # xs) st =
     (case body x st of
        Done st' \<Rightarrow> for_each body xs st'
      | Raised e st' \<Rightarrow> Raised e st')"

definition try_except :: "'s outcome \<Rightarrow> 's outcome" where
  \<comment> \<open>\<open>try: ... except (ValueError, IndexError): pass\<close>\<close>
  "try_except r =
     (case r of
        Done st \<Rightarrow> Done st
      | Raised e st \<Rightarrow> if e = ValueError \<or> e = IndexError then Done st else Raised e st)"

definition group_step :: "string \<Rightarrow> found_ref \<Rightarrow> re_match \<Rightarrow> nat \<Rightarrow> finder_state \<Rightarrow> finder_state outcome" where
  \<comment> \<open>\<open>if match.group(i): num_str = match.group(i).strip(); if num_str and ...\<close>\<close>
  "group_step type_name w m i st =
     (case group m i of
        Inl e \<Rightarrow> Raised e st
      | Inr None \<Rightarrow> Done st
      | Inr (Some g) \<Rightarrow>
          if g = [] then Done st else Done (claim_checked type_name w (py_strip g) st))"

definition all_groups :: "re_match \<Rightarrow> nat list" where
  \<comment> \<open>\<open>range(1, len(match.groups()) + 1)\<close>\<close>
  "all_groups m = [1..<Suc (length (m_groups m))]"

definition int_group :: "re_match \<Rightarrow> nat \<Rightarrow> py_exn + int" where
  \<comment> \<open>\<open>int(match.group(g))\<close>: \<open>TypeError\<close> on \<open>None\<close>, \<open>ValueError\<close> on a string that is
      no integer\<close>
  "int_group m g =
     (case group m g of
        Inl e \<Rightarrow> Inl e
      | Inr None \<Rightarrow> Inl TypeError
      | Inr (Some t) \<Rightarrow> (case py_int t of None \<Rightarrow> Inl ValueError | Some v \<Rightarrow> Inr v))"

definition strip_group :: "re_match \<Rightarrow> nat \<Rightarrow> py_exn + string" where
  \<comment> \<open>\<open>match.group(g).strip()\<close>: \<open>AttributeError\<close> on \<open>None\<close>\<close>
  "strip_group m g =
     (case group m g of
        Inl e \<Rightarrow> Inl e
      | Inr None \<Rightarrow> Inl AttributeError
      | Inr (Some t) \<Rightarrow> Inr (py_strip t))"

definition range_step :: "string \<Rightarrow> found_ref \<Rightarrow> re_match \<Rightarrow> finder_state \<Rightarrow> finder_state outcome" where
  \<comment> \<open>the \<open>is_range\<close> branch: \<open>start, end = int(match.group(1)), int(match.group(2))\<close>
      (\<open>stop\<close> is the source's \<open>end\<close>),
      then every number of \<open>range(start, end + 1)\<close> when \<open>start <= end\<close>\<close>
  "range_step type_name w m st =
     (case int_group m 1 of
        Inl e \<Rightarrow> Raised e st
      | Inr start \<Rightarrow>
          (case int_group m 2 of
             Inl e \<Rightarrow> Raised e st
           | Inr stop \<Rightarrow>
               if start \<le> stop
               then Done (fold (\<lambda>num. claim type_name w (py_str_int num)) [start..stop] st)
               else Done st))"

definition list_step :: "string \<Rightarrow> found_ref \<Rightarrow> re_match \<Rightarrow> finder_state \<Rightarrow> finder_state outcome" where
  \<comment> \<open>the branch of the lists \<open>x Y y\<close>\<close>
  "list_step type_name w m st =
     (case strip_group m 1 of
        Inl e \<Rightarrow> Raised e st
      | Inr num1_str \<Rightarrow>
          (let st1 = claim_checked type_name w num1_str st
           in case strip_group m 2 of
                Inl e \<Rightarrow> Raised e st1
              | Inr num2_str \<Rightarrow> Done (claim_checked type_name w num2_str st1)))"

definition first_group_step :: "string \<Rightarrow> found_ref \<Rightarrow> re_match \<Rightarrow> finder_state \<Rightarrow> finder_state outcome" where
  \<comment> \<open>the special branch of \<open>find_references_totalnot\<close> and \<open>find_references_contpaq\<close>:
      group 1 only\<close>
  "first_group_step type_name w m st =
     (case strip_group m 1 of
        Inl e \<Rightarrow> Raised e st
      | Inr num_str \<Rightarrow> Done (claim_checked type_name w num_str st))"

record table_row =
  row_pattern :: pattern
  row_type_name :: string
  row_found_set :: found_ref
  row_is_range :: bool
  row_special :: bool

definition instrumentos_patterns :: "table_row list" where
  "instrumentos_patterns =
     [\<lparr>row_pattern = REGEX_INSTRUMENTOS_ESC_SINGLE, row_type_name = ''Escritura'',
       row_found_set = Found_escritura, row_is_range = False, row_special = False\<rparr>,
      \<lparr>row_pattern = REGEX_INSTRUMENTOS_ESC_COMMA, row_type_name = ''Escritura'',
       row_found_set = Found_escritura, row_is_range = False, row_special = False\<rparr>,
      \<lparr>row_pattern = REGEX_INSTRUMENTOS_ACT_SINGLE, row_type_name = ''Acta Fuera de Protocolo'',
       row_found_set = Found_acta, row_is_range = False, row_special = False\<rparr>,
      \<lparr>row_pattern = REGEX_INSTRUMENTOS_ACT_COMMA, row_type_name = ''Acta Fuera de Protocolo'',
       row_found_set = Found_acta, row_is_range = False, row_special = False\<rparr>]"

definition patterns_and_types :: "table_row list" where
  "patterns_and_types =
     [\<lparr>row_pattern = REGEX_ESCRITURA_RANGE, row_type_name = ''Escritura'',
       row_found_set = Found_escritura, row_is_range = True, row_special = False\<rparr>,
      \<lparr>row_pattern = REGEX_ACTA_RANGE, row_type_name = ''Acta Fuera de Protocolo'',
       row_found_set = Found_acta, row_is_range = True, row_special = False\<rparr>,
      \<lparr>row_pattern = REGEX_ACTA_RANGE_AL, row_type_name = ''Acta Fuera de Protocolo'',
       row_found_set = Found_acta, row_is_range = True, row_special = False\<rparr>,
      \<lparr>row_pattern = REGEX_ESCRITURA_LIST_Y, row_type_name = ''Escritura'',
       row_found_set = Found_escritura, row_is_range = False, row_special = False\<rparr>,
      \<lparr>row_pattern = REGEX_ACTA_LIST_Y, row_type_name = ''Acta Fuera de Protocolo'',
       row_found_set = Found_acta, row_is_range = False, row_special = False\<rparr>,
      \<lparr>row_pattern = REGEX_ACTA_SPECIAL, row_type_name = ''Acta Fuera de Protocolo'',
       row_found_set = Found_acta, row_is_range = False, row_special = True\<rparr>]"

definition single_patterns :: "table_row list" where
  "single_patterns =
     [\<lparr>row_pattern = REGEX_ESCRITURA_SINGLE, row_type_name = ''Escritura'',
       row_found_set = Found_escritura, row_is_range = False, row_special = False\<rparr>,
      \<lparr>row_pattern = REGEX_ACTA_SINGLE, row_type_name = ''Acta Fuera de Protocolo'',
       row_found_set = Found_acta, row_is_range = False, row_special = False\<rparr>]"

definition instrumentos_step :: "table_row \<Rightarrow> re_match \<Rightarrow> finder_state \<Rightarrow> finder_state outcome" where
  \<comment> \<open>a match of a row of \<open>instrumentos_patterns\<close>: every group that took part\<close>
  "instrumentos_step row m st =
     try_except (for_each (group_step (row_type_name row) (row_found_set row) m) (all_groups m) st)"

definition instrumentos_row :: "string \<Rightarrow> table_row \<Rightarrow> finder_state \<Rightarrow> finder_state outcome" where
  "instrumentos_row text row st =
     for_each (instrumentos_step row) (finditer (row_pattern row) text) st"

definition combined_step :: "re_match \<Rightarrow> finder_state \<Rightarrow> finder_state outcome" where
  \<comment> \<open>a match of \<open>REGEX_INSTRUMENTOS_COMBINED\<close>: groups 1 to 3 are Escritura numbers,
      groups 4 to 6 Acta numbers\<close>
  "combined_step m st =
     try_except
       (case for_each (group_step ''Escritura'' Found_escritura m) [1..<4] st of
          Raised e st' \<Rightarrow> Raised e st'
        | Done st' \<Rightarrow> for_each (group_step ''Acta Fuera de Protocolo'' Found_acta m) [4..<7] st')"

definition standard_step ::
  "bool \<Rightarrow> table_row \<Rightarrow> re_match \<Rightarrow> finder_state \<Rightarrow> finder_state outcome" where
  \<comment> \<open>a match of a row of \<open>patterns_and_types\<close>. \<open>all_special\<close> tells the special branch
      of \<open>find_references_dba\<close> (all groups) from that of the other two (group 1)\<close>
  "standard_step all_special row m st =
     try_except
       (if row_is_range row then range_step (row_type_name row) (row_found_set row) m st
        else if row_special row then
          (if all_special
           then for_each (group_step (row_type_name row) (row_found_set row) m) (all_groups m) st
           else first_group_step (row_type_name row) (row_found_set row) m st)
        else list_step (row_type_name row) (row_found_set row) m st)"

definition standard_row ::
  "bool \<Rightarrow> string \<Rightarrow> table_row \<Rightarrow> finder_state \<Rightarrow> finder_state outcome" where
  "standard_row all_special text row st =
     for_each (standard_step all_special row) (finditer (row_pattern row) text) st"

fun potential_singles :: "re_match list \<Rightarrow> py_exn + string list" where
  \<comment> \<open>\<open>num_candidate = m.group(1).strip()\<close>, kept when it is not empty and
      \<open>isdigit()\<close>; this loop stands in no \<open>try\<close>\<close>
  "potential_singles [] = Inr []"
| "potential_singles (m # ms) =
     (case strip_group m 1 of
        Inl e \<Rightarrow> Inl e
      | Inr num_candidate \<Rightarrow>
          (case potential_singles ms of
             Inl e \<Rightarrow> Inl e
           | Inr rest \<Rightarrow>
               Inr (if num_candidate \<noteq> [] \<and> py_isdigit num_candidate
                    then num_candidate # rest else rest)))"

definition single_row :: "string \<Rightarrow> table_row \<Rightarrow> finder_state \<Rightarrow> finder_state outcome" where
  "single_row text row st =
     (case potential_singles (finditer (row_pattern row) text) of
        Inl e \<Rightarrow> Raised e st
      | Inr nums \<Rightarrow> Done (fold (claim (row_type_name row) (row_found_set row)) nums st))"

definition num_val :: "string \<Rightarrow> bool \<times> int" where
  \<comment> \<open>the numeric part of the sort key: \<open>(False, v)\<close> stands for the integer \<open>v\<close> and
      \<open>(True, 0)\<close> for \<open>float('inf')\<close>, which the lexicographic order places after
      every integer\<close>
  "num_val number = (case py_int number of Some v \<Rightarrow> (False, v) | None \<Rightarrow> (True, 0))"

definition ref_sort_key :: "reference \<Rightarrow> string \<times> bool \<times> int" where
  \<comment> \<open>\<open>sort_key\<close>: \<open>(item["Type"], num_val)\<close>\<close>
  "ref_sort_key item = (Type item, num_val (Number item))"

definition sort_references :: "reference list \<Rightarrow> reference list" where
  \<comment> \<open>\<open>references.sort(key=sort_key)\<close>: a stable sort\<close>
  "sort_references refs = sort_key ref_sort_key refs"

definition init_state :: finder_state where
  "init_state = \<lparr>references = [], found_escritura_numbers = {}, found_acta_numbers = {}\<rparr>"

definition finish :: "finder_state outcome \<Rightarrow> py_exn + reference list" where
  "finish r = (case r of Done st \<Rightarrow> Inr (sort_references (references st)) | Raised e st \<Rightarrow> Inl e)"

definition then_do ::
  "finder_state outcome \<Rightarrow> (finder_state \<Rightarrow> finder_state outcome) \<Rightarrow> finder_state outcome" where
  \<comment> \<open>statements in sequence: the second runs when the first did not raise\<close>
  "then_do r k = (case r of Done st \<Rightarrow> k st | Raised e st \<Rightarrow> Raised e st)"

definition text_for_processing :: "string \<Rightarrow> string" where
  \<comment> \<open>the dates masked: \<open>re.sub(pattern, "EXCLUDED_DATE", ..., flags=re.IGNORECASE)\<close>
      for each of \<open>exclude_patterns\<close>\<close>
  "text_for_processing text = fold (\<lambda>p t. re_sub p ''EXCLUDED_DATE'' t) exclude_patterns text"

definition collect_dba :: "string \<Rightarrow> finder_state outcome" where
  \<comment> \<open>the loops of \<open>find_references_dba\<close> over the masked text, up to \<open>Sorting\<close>\<close>
  "collect_dba t =
     then_do (then_do (then_do
       (for_each (instrumentos_row t) instrumentos_patterns init_state)
       (for_each combined_step (finditer REGEX_INSTRUMENTOS_COMBINED t)))
       (for_each (standard_row True t) patterns_and_types))
       (for_each (single_row t) single_patterns)"

definition find_references_dba :: "string \<Rightarrow> py_exn + reference list" where
  "find_references_dba text =
     (if text = [] then Inr [] else finish (collect_dba (text_for_processing text)))"

definition collect_totalnot :: "string \<Rightarrow> finder_state outcome" where
  "collect_totalnot text =
     then_do (for_each (standard_row False text) patterns_and_types init_state)
       (for_each (single_row text) single_patterns)"

definition find_references_totalnot :: "string \<Rightarrow> py_exn + reference list" where
  "find_references_totalnot text =
     (if text = [] then Inr [] else finish (collect_totalnot text))"

definition collect_contpaq :: "string \<Rightarrow> finder_state outcome" where
  \<comment> \<open>\<open>find_references_contpaq\<close> is a copy of \<open>find_references_totalnot\<close> in the source\<close>
  "collect_contpaq text =
     then_do (for_each (standard_row False text) patterns_and_types init_state)
       (for_each (single_row text) single_patterns)"

definition find_references_contpaq :: "string \<Rightarrow> py_exn + reference list" where
  "find_references_contpaq text =
     (if text = [] then Inr [] else finish (collect_contpaq text))"

section \<open>The record assembler\<close>

record output_row =
  Document_Type :: string
  Reference_Number :: string
  Invoice_Folio :: string
  Source_PDF :: string
  Full_PDF_Path :: string

definition basename :: "string \<Rightarrow> string" where
  \<comment> \<open>\<open>os.path.basename\<close> of \<open>posixpath\<close>: what follows the last slash\<close>
  "basename path = rev (takeWhile (\<lambda>c. c \<noteq> CHR ''/'') (rev path))"

definition references_for :: "string \<Rightarrow> string \<Rightarrow> py_exn + reference list" where
  \<comment> \<open>the dispatch on \<open>invoice_type\<close>; an unknown type leaves \<open>references\<close> empty\<close>
  "references_for invoice_type text =
     (if invoice_type = ''DBA'' then find_references_dba text
      else if invoice_type = ''TOTALNOT'' then find_references_totalnot text
      else if invoice_type = ''CONTPAQ'' then find_references_contpaq text
      else Inr [])"

definition assemble ::
  "string \<Rightarrow> string \<Rightarrow> string option \<Rightarrow> string \<Rightarrow> string \<Rightarrow> reference list \<Rightarrow> output_row list" where
  \<comment> \<open>the part of \<open>process_single_pdf\<close> under \<open>Assemble Output Rows\<close>\<close>
  "assemble pdf_path filename text invoice_type folio refs =
     (let output_rows =
        (if text = None \<and> invoice_type = ''DBA''
            \<and> folio \<notin> set [''NOT_FOUND'', ''ERROR'', ''FOLIO_FISCAL_SUSPECTED'']
         then [\<lparr>Document_Type = ''N/A'', Reference_Number = ''TEXT_EXTRACTION_FAILED'',
                Invoice_Folio = folio, Source_PDF = filename, Full_PDF_Path = pdf_path\<rparr>]
         else if text \<noteq> None \<and> refs = []
         then [\<lparr>Document_Type = ''N/A'', Reference_Number = ''N/A'',
                Invoice_Folio = folio, Source_PDF = filename, Full_PDF_Path = pdf_path\<rparr>]
         else if refs \<noteq> []
         then map (\<lambda>ref. \<lparr>Document_Type = Type ref, Reference_Number = Number ref,
                          Invoice_Folio = folio, Source_PDF = filename,
                          Full_PDF_Path = pdf_path\<rparr>) refs
         else [])
      in if output_rows = [] \<and> text = None \<and> folio \<in> set [''NOT_FOUND'', ''ERROR'']
         then output_rows @
              [\<lparr>Document_Type = ''ERROR'',
                Reference_Number = (if text = None then ''Text Extraction Failed''
                                    else ''Processing Error''),
                Invoice_Folio = (if folio = ''NOT_FOUND'' then folio else ''ERROR''),
                Source_PDF = filename, Full_PDF_Path = pdf_path\<rparr>]
         else if output_rows = []
         then output_rows @
              [\<lparr>Document_Type = ''N/A'', Reference_Number = ''N/A'',
                Invoice_Folio = folio, Source_PDF = filename, Full_PDF_Path = pdf_path\<rparr>]
         else output_rows)"

definition process_single_pdf ::
  "string \<Rightarrow> string option \<Rightarrow> string \<Rightarrow> py_exn + output_row list" where
  \<comment> \<open>\<open>process_single_pdf(pdf_path, invoice_type)\<close>; \<open>text\<close> is what
      \<open>extract_text_from_pdf(pdf_path)\<close> returned, \<open>None\<close> when it failed\<close>
  "process_single_pdf pdf_path text invoice_type =
     (let filename = basename pdf_path in
      if text = None \<and> invoice_type \<noteq> ''DBA''
      then Inr [\<lparr>Document_Type = ''ERROR'', Reference_Number = ''Text Extraction Failed'',
                 Invoice_Folio = ''ERROR'', Source_PDF = filename, Full_PDF_Path = pdf_path\<rparr>]
      else
        (case find_folio text invoice_type (Some filename) of
           Inl e \<Rightarrow> Inl e
         | Inr folio \<Rightarrow>
             (case (case text of
                      Some t \<Rightarrow> if t \<noteq> [] then references_for invoice_type t else Inr []
                    | None \<Rightarrow> Inr []) of
                Inl e \<Rightarrow> Inl e
              | Inr refs \<Rightarrow> Inr (assemble pdf_path filename text invoice_type folio refs))))"

section \<open>The fallback oracle client\<close>

text \<open>
  A value \<open>json.loads\<close> returns. A \<open>float\<close> is identified with its \<open>repr\<close>, the only
  thing the program reads of it besides its truth value. The members of an object are
  in insertion order, as in a \<open>dict\<close>.
\<close>

datatype json =
    JNull
  | JBool bool
  | JInt int
  | JFloat string
  | JStr string
  | JArr "json list"
  | JObj "(string \<times> json) list"

definition join :: "string \<Rightarrow> string list \<Rightarrow> string" where
  \<comment> \<open>\<open>sep.join(parts)\<close>\<close>
  "join sep parts = (case parts of [] \<Rightarrow> [] | x # xs \<Rightarrow> x @ concat (map (\<lambda>y. sep @ y) xs))"

definition is_printable :: "char \<Rightarrow> bool" where
  \<comment> \<open>\<open>str.isprintable\<close> on one character\<close>
  "is_printable c = (let n = (of_char c :: nat) in
     \<not> (n < 32 \<or> (127 \<le> n \<and> n \<le> 160) \<or> n = 173))"

definition hex_digit :: "nat \<Rightarrow> char" where
  "hex_digit n = (if n < 10 then char_of (48 + n) else char_of (87 + n))"

definition repr_char :: "char \<Rightarrow> char \<Rightarrow> string" where
  \<comment> \<open>one character inside the \<open>repr\<close> of a \<open>str\<close> quoted with \<open>q\<close>\<close>
  "repr_char q c =
     (if c = q \<or> c = CHR 0x5C then [CHR 0x5C, c]
      else if c = CHR 0x09 then [CHR 0x5C, CHR ''t'']
      else if c = CHR 0x0A then [CHR 0x5C, CHR ''n'']
      else if c = CHR 0x0D then [CHR 0x5C, CHR ''r'']
      else if is_printable c then [c]
      else [CHR 0x5C, CHR ''x'', hex_digit ((of_char c :: nat) div 16),
            hex_digit ((of_char c :: nat) mod 16)])"

definition repr_str :: "string \<Rightarrow> string" where
  \<comment> \<open>\<open>repr\<close> of a \<open>str\<close>: single quotes, unless it holds one and no double quote\<close>
  "repr_str t =
     (let q = (if CHR 0x27 \<in> set t \<and> CHR 0x22 \<notin> set t then CHR 0x22 else CHR 0x27)
      in [q] @ concat (map (repr_char q) t) @ [q])"

fun py_repr :: "json \<Rightarrow> string" where
  "py_repr JNull = ''None''"
| "py_repr (JBool b) = (if b then ''True'' else ''False'')"
| "py_repr (JInt i) = py_str_int i"
| "py_repr (JFloat r) = r"
| "py_repr (JStr t) = repr_str t"
| "py_repr (JArr xs) = ''['' @ join '', '' (map py_repr xs) @ '']''"
| "py_repr (JObj kvs) =
     ''{'' @ join '', '' (map (\<lambda>kv. repr_str (fst kv) @ '': '' @ py_repr (snd kv)) kvs) @ ''}''"

definition py_str :: "json \<Rightarrow> string" where
  \<comment> \<open>\<open>str(value)\<close>\<close>
  "py_str v = (case v of JStr t \<Rightarrow> t | _ \<Rightarrow> py_repr v)"

definition py_bool :: "json \<Rightarrow> bool" where
  \<comment> \<open>the truth value of a parsed value\<close>
  "py_bool v =
     (case v of
        JNull \<Rightarrow> False
      | JBool b \<Rightarrow> b
      | JInt i \<Rightarrow> i \<noteq> 0
      | JFloat r \<Rightarrow> r \<noteq> ''0.0'' \<and> r \<noteq> ''-0.0''
      | JStr t \<Rightarrow> t \<noteq> []
      | JArr xs \<Rightarrow> xs \<noteq> []
      | JObj kvs \<Rightarrow> kvs \<noteq> [])"

definition dict_get :: "json \<Rightarrow> string \<Rightarrow> json \<Rightarrow> py_exn + json" where
  \<comment> \<open>\<open>obj.get(key, default)\<close>: only a \<open>dict\<close> has the method\<close>
  "dict_get obj key dflt =
     (case obj of
        JObj kvs \<Rightarrow> Inr (case map_of kvs key of None \<Rightarrow> dflt | Some v \<Rightarrow> v)
      | _ \<Rightarrow> Inl AttributeError)"

definition py_len :: "json \<Rightarrow> py_exn + nat" where
  "py_len v =
     (case v of
        JStr t \<Rightarrow> Inr (length t)
      | JArr xs \<Rightarrow> Inr (length xs)
      | JObj kvs \<Rightarrow> Inr (length kvs)
      | _ \<Rightarrow> Inl TypeError)"

definition first_item :: "json \<Rightarrow> py_exn + json" where
  \<comment> \<open>\<open>v[0]\<close>: an object parsed from JSON has string keys only, so \<open>0\<close> is a missing key\<close>
  "first_item v =
     (case v of
        JArr xs \<Rightarrow> (case xs of [] \<Rightarrow> Inl IndexError | x # _ \<Rightarrow> Inr x)
      | JStr t \<Rightarrow> (case t of [] \<Rightarrow> Inl IndexError | c # _ \<Rightarrow> Inr (JStr [c]))
      | JObj kvs \<Rightarrow> Inl KeyError
      | _ \<Rightarrow> Inl TypeError)"

record validated_data =
  folio_number :: string
  document_type :: string
  document_id :: string

definition allowed_types :: "string list" where
  "allowed_types = [''Escritura'', ''Acta Fuera de Protocolo'', ''Both'', ''N/A'']"

definition original_key :: "(string \<times> json) list \<Rightarrow> string \<Rightarrow> string option" where
  \<comment> \<open>\<open>extracted_keys_lower.get(req_key)\<close> for
      \<open>extracted_keys_lower = {k.lower(): k for k in extracted_data.keys()}\<close>: of the keys
      that lower to \<open>req_key\<close> the last one stays\<close>
  "original_key kvs req_key =
     (case filter (\<lambda>k. py_lower k = req_key) (map fst kvs) of
        [] \<Rightarrow> None
      | ks \<Rightarrow> Some (last ks))"

definition required_value :: "(string \<times> json) list \<Rightarrow> string \<Rightarrow> string" where
  \<comment> \<open>the body of the loop over \<open>required_keys\<close>\<close>
  "required_value kvs req_key =
     (case original_key kvs req_key of
        None \<Rightarrow> ''N/A''
      | Some k \<Rightarrow>
          if k = [] then ''N/A''
          else (case map_of kvs k of
                  None \<Rightarrow> ''N/A''
                | Some JNull \<Rightarrow> ''N/A''
                | Some v \<Rightarrow> (let value = py_strip (py_str v)
                             in if value \<noteq> [] then value else ''N/A'')))"

definition validate :: "(string \<times> json) list \<Rightarrow> validated_data" where
  \<comment> \<open>\<open>Validation and Normalization\<close> of the parsed object\<close>
  "validate kvs =
     (let v0 = \<lparr>folio_number = required_value kvs ''folio_number'',
                document_type = required_value kvs ''document_type'',
                document_id = required_value kvs ''document_id''\<rparr>;
          v1 = (if document_type v0 \<notin> set allowed_types
                then v0\<lparr>document_type := ''N/A''\<rparr> else v0)
      in if document_type v1 = ''N/A''
         then (if document_id v1 \<noteq> ''N/A'' then v1\<lparr>document_id := ''N/A''\<rparr> else v1)
         else v1)"

definition fenced_json_pattern :: pattern where
  \<comment> \<open>\<open>```json\s*(\{.*?\})\s*```\<close> with \<open>re.DOTALL | re.IGNORECASE\<close>\<close>
  "fenced_json_pattern =
     \<lparr>p_regex = seqs [lit ''```json'', s0,
                       Grp 1 (seqs [lit ''{'', Rep Dot 0 None False, lit ''}'']), s0, lit ''```''],
      p_flags = flags_IS\<rparr>"

definition braces_pattern :: pattern where
  \<comment> \<open>\<open>(\{.*?\})\<close> with \<open>re.DOTALL\<close>\<close>
  "braces_pattern =
     \<lparr>p_regex = seqs [Grp 1 (seqs [lit ''{'', Rep Dot 0 None False, lit ''}''])],
      p_flags = flags_S\<rparr>"

definition json_string_found :: "string \<Rightarrow> py_exn + string option" where
  \<comment> \<open>what is searched once parsing the whole content has failed: the fenced block if
      there is one, else the first \<open>{...}\<close>\<close>
  "json_string_found message_content =
     (case re_search fenced_json_pattern message_content of
        Some json_match \<Rightarrow> group json_match 1
      | None \<Rightarrow>
          (case re_search braces_pattern message_content of
             Some json_match \<Rightarrow> group json_match 1
           | None \<Rightarrow> Inr None))"

definition validated_result :: "json \<Rightarrow> py_exn + validated_data option" where
  \<comment> \<open>\<open>if extracted_data: ... extracted_data.keys() ...\<close>: a value that is not a
      \<open>dict\<close> has no \<open>keys\<close>\<close>
  "validated_result extracted_data =
     (if py_bool extracted_data
      then (case extracted_data of
              JObj kvs \<Rightarrow> Inr (Some (validate kvs))
            | _ \<Rightarrow> Inl AttributeError)
      else Inr None)"

definition parse_content :: "(string \<Rightarrow> json option) \<Rightarrow> string \<Rightarrow> py_exn + validated_data option" where
  \<comment> \<open>from \<open>Attempt to extract JSON robustly\<close> on; \<open>loads\<close> is \<open>json.loads\<close>, \<open>None\<close>
      for \<open>JSONDecodeError\<close>\<close>
  "parse_content loads message_content =
     (case loads message_content of
        Some extracted_data \<Rightarrow> validated_result extracted_data
      | None \<Rightarrow>
          (case json_string_found message_content of
             Inl e \<Rightarrow> Inl e
           | Inr found \<Rightarrow>
               if truthy found
               then (case found of
                       Some js \<Rightarrow>
                         (case loads js of
                            None \<Rightarrow> Inr None
                          | Some extracted_data \<Rightarrow> validated_result extracted_data)
                     | None \<Rightarrow> Inr None)
               else Inr None))"

definition handle_response :: "(string \<Rightarrow> json option) \<Rightarrow> json \<Rightarrow> py_exn + validated_data option" where
  \<comment> \<open>the body of the \<open>try\<close> after \<open>response_data = response.json()\<close>\<close>
  "handle_response loads response_data =
     (case dict_get response_data ''choices'' JNull of
        Inl e \<Rightarrow> Inl e
      | Inr choices \<Rightarrow>
          if \<not> py_bool choices then Inr None
          else (case py_len choices of
                  Inl e \<Rightarrow> Inl e
                | Inr n \<Rightarrow>
                    if \<not> 0 < n then Inr None
                    else (case first_item choices of
                            Inl e \<Rightarrow> Inl e
                          | Inr choice \<Rightarrow>
                              (case dict_get choice ''message'' (JObj []) of
                                 Inl e \<Rightarrow> Inl e
                               | Inr message \<Rightarrow>
                                   (case dict_get message ''content'' JNull of
                                      Inl e \<Rightarrow> Inl e
                                    | Inr (JStr content) \<Rightarrow>
                                        (let message_content = py_strip content
                                         in if message_content \<noteq> []
                                            then parse_content loads message_content
                                            else Inr None)
                                    | Inr _ \<Rightarrow> Inr None)))))"

text \<open>
  What the HTTP exchange came to: \<open>requests.post\<close> raised (a timeout, a connection
  error, another \<open>RequestException\<close>), \<open>raise_for_status()\<close> raised for an error
  status, \<open>response.json()\<close> raised, or the body was parsed.
\<close>

datatype http_result =
    Timeout
  | ConnectionError
  | RequestException
  | HTTPError
  | InvalidBody
  | Body json

definition max_chars :: nat where
  "max_chars = 15000"

definition query_llm_for_details ::
  "(string \<Rightarrow> string \<Rightarrow> http_result) \<Rightarrow> (string \<Rightarrow> json option) \<Rightarrow> string \<Rightarrow> string
     \<Rightarrow> validated_data option" where
  \<comment> \<open>\<open>post\<close> is the exchange with the service, given the truncated text and the filename
      hint the prompt is built from; every exception ends in one of the \<open>except\<close> clauses,
      which return \<open>None\<close>\<close>
  "query_llm_for_details post loads pdf_text filename_hint =
     (let truncated_text = take max_chars pdf_text
      in case post truncated_text filename_hint of
           Body response_data \<Rightarrow>
             (case handle_response loads response_data of
                Inl e \<Rightarrow> None
              | Inr result \<Rightarrow> result)
         | _ \<Rightarrow> None)"

section \<open>A JSON reader for the examples\<close>

text \<open>
  \<open>json.loads\<close> is a parameter of the client above. For closed examples
  \<open>json_loads\<close> reads the JSON texts whose numbers are integers (or \<open>NaN\<close>,
  \<open>Infinity\<close>) and whose \<open>\u\<close> escapes stay below 256, as the decoder of CPython
  does; a text with another number or escape is outside what it reads and gives
  \<open>None\<close>. The recursion runs on fuel; every call consumes a character within two
  steps, so twice the length of the text is enough.
\<close>

definition json_ws :: "char \<Rightarrow> bool" where
  "json_ws c = (c = CHR '' '' \<or> c = CHR 0x09 \<or> c = CHR 0x0A \<or> c = CHR 0x0D)"

definition skip_ws :: "string \<Rightarrow> string" where
  "skip_ws t = dropWhile json_ws t"

definition starts :: "string \<Rightarrow> string \<Rightarrow> bool" where
  "starts pre t = (take (length pre) t = pre)"

definition hex_val :: "char \<Rightarrow> nat option" where
  "hex_val c = (let n = (of_char c :: nat) in
     if 48 \<le> n \<and> n \<le> 57 then Some (n - 48)
     else if 65 \<le> n \<and> n \<le> 70 then Some (n - 55)
     else if 97 \<le> n \<and> n \<le> 102 then Some (n - 87)
     else None)"

definition simple_escape :: "char \<Rightarrow> char option" where
  "simple_escape e =
     (if e = CHR 0x22 \<or> e = CHR 0x5C \<or> e = CHR ''/'' then Some e
      else if e = CHR ''b'' then Some (CHR 0x08)
      else if e = CHR ''f'' then Some (CHR 0x0C)
      else if e = CHR ''n'' then Some (CHR 0x0A)
      else if e = CHR ''r'' then Some (CHR 0x0D)
      else if e = CHR ''t'' then Some (CHR 0x09)
      else None)"

fun scan_string :: "string \<Rightarrow> string \<Rightarrow> (string \<times> string) option" where
  \<comment> \<open>after the opening quote: the string read (kept reversed in the accumulator) and
      the rest of the text\<close>
  "scan_string [] acc = None"
| "scan_string (c # cs) acc =
     (if c = CHR 0x22 then Some (rev acc, cs)
      else if c = CHR 0x5C then
        (case cs of
           [] \<Rightarrow> None
         | e # es \<Rightarrow>
             if e = CHR ''u'' then
               (case es of
                  h1 # h2 # h3 # h4 # rest \<Rightarrow>
                    (case (hex_val h1, hex_val h2, hex_val h3, hex_val h4) of
                       (Some a, Some b, Some c', Some d) \<Rightarrow>
                         if a = 0 \<and> b = 0 then scan_string rest (char_of (16 * c' + d) # acc)
                         else None
                     | _ \<Rightarrow> None)
                | _ \<Rightarrow> None)
             else (case simple_escape e of
                     None \<Rightarrow> None
                   | Some ch \<Rightarrow> scan_string es (ch # acc)))
      else if (of_char c :: nat) < 32 then None
      else scan_string cs (c # acc))"

definition scan_number :: "string \<Rightarrow> (json \<times> string) option" where
  \<comment> \<open>\<open>-?(0|[1-9]\d*)\<close>, an integer when no fraction and no exponent follows\<close>
  "scan_number t =
     (let neg = starts ''-'' t;
          u = (if neg then tl t else t);
          ds = (if starts ''0'' u then ''0'' else takeWhile is_decimal u);
          rest = drop (length ds) u;
          frac = (starts ''.'' rest \<and> rest \<noteq> ''.'' \<and> is_decimal (rest ! 1));
          e1 = (rest \<noteq> [] \<and> (hd rest = CHR ''e'' \<or> hd rest = CHR ''E''));
          after_e = (if e1 \<and> tl rest \<noteq> [] \<and> (hd (tl rest) = CHR ''+'' \<or> hd (tl rest) = CHR ''-'')
                     then tl (tl rest) else tl rest);
          expo = (e1 \<and> after_e \<noteq> [] \<and> is_decimal (hd after_e))
      in if ds = [] \<or> frac \<or> expo then None
         else (case int_unsigned ds of
                 None \<Rightarrow> None
               | Some n \<Rightarrow> Some (JInt (if neg then - int n else int n), rest)))"

definition dict_store :: "string \<times> json \<Rightarrow> (string \<times> json) list \<Rightarrow> (string \<times> json) list" where
  \<comment> \<open>\<open>d[key] = value\<close>: a key that is there keeps its place\<close>
  "dict_store kv d =
     (if fst kv \<in> fst ` set d then map (\<lambda>old. if fst old = fst kv then kv else old) d
      else d @ [kv])"

fun parse_value :: "nat \<Rightarrow> string \<Rightarrow> (json \<times> string) option"
  and parse_elements :: "nat \<Rightarrow> string \<Rightarrow> (json list \<times> string) option"
  and parse_members :: "nat \<Rightarrow> string \<Rightarrow> ((string \<times> json) list \<times> string) option" where
  "parse_value 0 t = None"
| "parse_value (Suc n) t =
     (if starts [CHR 0x22] t then
        (case scan_string (tl t) [] of
           None \<Rightarrow> None
         | Some (str, rest) \<Rightarrow> Some (JStr str, rest))
      else if starts ''{'' t then
        (let u = skip_ws (tl t)
         in if starts ''}'' u then Some (JObj [], tl u)
            else (case parse_members n u of
                    None \<Rightarrow> None
                  | Some (ms, rest) \<Rightarrow> Some (JObj (fold dict_store ms []), rest)))
      else if starts ''['' t then
        (let u = skip_ws (tl t)
         in if starts '']'' u then Some (JArr [], tl u)
            else (case parse_elements n u of
                    None \<Rightarrow> None
                  | Some (xs, rest) \<Rightarrow> Some (JArr xs, rest)))
      else if starts ''null'' t then Some (JNull, drop 4 t)
      else if starts ''true'' t then Some (JBool True, drop 4 t)
      else if starts ''false'' t then Some (JBool False, drop 5 t)
      else if t \<noteq> [] \<and> (is_decimal (hd t) \<or> (hd t = CHR ''-'' \<and> tl t \<noteq> [] \<and> is_decimal (hd (tl t))))
      then scan_number t
      else if starts ''NaN'' t then Some (JFloat ''nan'', drop 3 t)
      else if starts ''Infinity'' t then Some (JFloat ''inf'', drop 8 t)
      else if starts ''-Infinity'' t then Some (JFloat ''-inf'', drop 9 t)
      else None)"
| "parse_elements 0 t = None"
| "parse_elements (Suc n) t =
     (case parse_value n t of
        None \<Rightarrow> None
      | Some (x, r1) \<Rightarrow>
          (let r2 = skip_ws r1
           in if starts '','' r2 then
                (case parse_elements n (skip_ws (tl r2)) of
                   None \<Rightarrow> None
                 | Some (xs, r3) \<Rightarrow> Some (x # xs, r3))
              else if starts '']'' r2 then Some ([x], tl r2)
              else None))"
| "parse_members 0 t = None"
| "parse_members (Suc n) t =
     (if starts [CHR 0x22] t then
        (case scan_string (tl t) [] of
           None \<Rightarrow> None
         | Some (key, r1) \<Rightarrow>
             (let r2 = skip_ws r1
              in if starts '':'' r2 then
                   (case parse_value n (skip_ws (tl r2)) of
                      None \<Rightarrow> None
                    | Some (v, r3) \<Rightarrow>
                        (let r4 = skip_ws r3
                         in if starts '','' r4 then
                              (case parse_members n (skip_ws (tl r4)) of
                                 None \<Rightarrow> None
                               | Some (ms, r5) \<Rightarrow> Some ((key, v) # ms, r5))
                            else if starts ''}'' r4 then Some ([(key, v)], tl r4)
                            else None))
                 else None))
      else None)"

definition json_loads :: "string \<Rightarrow> json option" where
  "json_loads t =
     (case parse_value (2 * length t + 2) (skip_ws t) of
        None \<Rightarrow> None
      | Some (v, rest) \<Rightarrow> if skip_ws rest = [] then Some v else None)"

definition reply_with :: "string \<Rightarrow> json" where
  \<comment> \<open>the body of a chat completion whose first choice has the given content\<close>
  "reply_with content =
     JObj [(''choices'',
            JArr [JObj [(''message'',
                         JObj [(''role'', JStr ''assistant''), (''content'', JStr content)])]])]"

section \<open>Vocabulary of the proofs\<close>

text \<open>
  What a match of a pattern is known to carry, read off the pattern: the groups that
  every match sets (\<open>must\<close>), and whether every group is a run of decimal digits.
\<close>

primrec must :: "regex \<Rightarrow> nat set" where
  "must Eps = {}"
| "must (Cls k) = {}"
| "must (Rep k lo hi greedy) = {}"
| "must (Seq a b) = must a \<union> must b"
| "must (Alt a b) = must a \<inter> must b"
| "must (Opt a) = {}"
| "must (Grp g a) = insert g (must a)"
| "must WordB = {}"
| "must (NegLook a) = {}"

fun digit_body :: "regex \<Rightarrow> bool" where
  "digit_body (Rep (One IDigit) lo hi greedy) = (0 < lo)"
| "digit_body _ = False"

primrec digit_groups :: "regex \<Rightarrow> bool" where
  "digit_groups Eps = True"
| "digit_groups (Cls k) = True"
| "digit_groups (Rep k lo hi greedy) = True"
| "digit_groups (Seq a b) = (digit_groups a \<and> digit_groups b)"
| "digit_groups (Alt a b) = (digit_groups a \<and> digit_groups b)"
| "digit_groups (Opt a) = digit_groups a"
| "digit_groups (Grp g a) = digit_body a"
| "digit_groups WordB = True"
| "digit_groups (NegLook a) = digit_groups a"

definition decimal_string :: "string \<Rightarrow> bool" where
  \<comment> \<open>a non-empty string of the digits \<open>0\<close> to \<open>9\<close>\<close>
  "decimal_string t = (t \<noteq> [] \<and> list_all is_decimal t)"

definition caps_decimal :: "caps \<Rightarrow> bool" where
  "caps_decimal c = list_all (\<lambda>g. case g of None \<Rightarrow> True | Some t \<Rightarrow> decimal_string t) c"

definition good_match :: "pattern \<Rightarrow> re_match \<Rightarrow> bool" where
  "good_match p m =
     (length (m_groups m) = ngroups (p_regex p)
      \<and> (\<forall>g \<in> must (p_regex p). 0 < g \<and> g \<le> ngroups (p_regex p) \<longrightarrow> m_groups m ! (g - 1) \<noteq> None)
      \<and> (digit_groups (p_regex p) \<longrightarrow> caps_decimal (m_groups m)))"

text \<open>
  The vocabulary of the finders' invariants: the type name a set of claimed numbers
  belongs to, the state an outcome carries, the exceptions the \<open>try\<close> blocks catch
  (\<open>soft\<close>), and what it means for a property \<open>P\<close> of the state to be kept by the claims
  of numbers satisfying \<open>Q\<close>.
\<close>

definition type_name_of :: "found_ref \<Rightarrow> string" where
  "type_name_of w = (case w of Found_escritura \<Rightarrow> ''Escritura'' | Found_acta \<Rightarrow> ''Acta Fuera de Protocolo'')"

definition state_of :: "'s outcome \<Rightarrow> 's" where
  "state_of r = (case r of Done st \<Rightarrow> st | Raised e st \<Rightarrow> st)"

definition is_done :: "'s outcome \<Rightarrow> bool" where
  "is_done r = (case r of Done st \<Rightarrow> True | Raised e st \<Rightarrow> False)"

definition soft :: "'s outcome \<Rightarrow> bool" where
  "soft r = (case r of Done st \<Rightarrow> True | Raised e st \<Rightarrow> e = ValueError \<or> e = IndexError)"

definition row_ok :: "table_row \<Rightarrow> bool" where
  "row_ok row = (row_type_name row = type_name_of (row_found_set row))"

definition keeps :: "(finder_state \<Rightarrow> bool) \<Rightarrow> (string \<Rightarrow> bool) \<Rightarrow> string \<Rightarrow> found_ref \<Rightarrow> bool" where
  "keeps P Q T w = (\<forall>st n. P st \<longrightarrow> Q n \<longrightarrow> P (claim T w n st))"

definition keeps_all :: "(finder_state \<Rightarrow> bool) \<Rightarrow> (string \<Rightarrow> bool) \<Rightarrow> bool" where
  "keeps_all P Q = (\<forall>w. keeps P Q (type_name_of w) w)"

definition groups_sat :: "(string \<Rightarrow> bool) \<Rightarrow> re_match \<Rightarrow> bool" where
  "groups_sat Q m =
     ((\<forall>g t. group m g = Inr (Some t) \<longrightarrow> Q (py_strip t))
      \<and> (\<forall>a num. int_group m 1 = Inr a \<longrightarrow> a \<le> num \<longrightarrow> Q (py_str_int num)))"

definition table_sat :: "(string \<Rightarrow> bool) \<Rightarrow> string \<Rightarrow> table_row list \<Rightarrow> bool" where
  "table_sat Q t rows =
     (\<forall>row \<in> set rows. row_ok row \<and> (\<forall>m \<in> set (finditer (row_pattern row) t). groups_sat Q m))"

definition all_sat :: "(string \<Rightarrow> bool) \<Rightarrow> string \<Rightarrow> bool" where
  "all_sat Q t =
     (table_sat Q t instrumentos_patterns \<and> table_sat Q t patterns_and_types
      \<and> table_sat Q t single_patterns
      \<and> (\<forall>m \<in> set (finditer REGEX_INSTRUMENTOS_COMBINED t). groups_sat Q m))"

definition claimed :: "finder_state \<Rightarrow> reference set" where
  "claimed st =
     (\<lambda>n. \<lparr>Type = ''Escritura'', Number = n\<rparr>) ` found_escritura_numbers st
     \<union> (\<lambda>n. \<lparr>Type = ''Acta Fuera de Protocolo'', Number = n\<rparr>) ` found_acta_numbers st"

definition consistent :: "finder_state \<Rightarrow> bool" where
  "consistent st = (distinct (references st) \<and> set (references st) = claimed st)"

definition numbers_decimal :: "finder_state \<Rightarrow> bool" where
  "numbers_decimal st = (\<forall>r \<in> set (references st). decimal_string (Number r))"


text \<open>
  What a state holds: it is consistent and contains the given records. The records of the
  range 100 to 103 in a category, and a list in which each of them occurs exactly once.
\<close>

definition holds :: "reference set \<Rightarrow> finder_state \<Rightarrow> bool" where
  "holds X st = (consistent st \<and> X \<subseteq> set (references st))"

definition range_records :: "string \<Rightarrow> reference set" where
  "range_records T = (\<lambda>n. \<lparr>Type = T, Number = n\<rparr>) ` {''100'', ''101'', ''102'', ''103''}"

definition once_each :: "reference list \<Rightarrow> string \<Rightarrow> bool" where
  "once_each refs T =
     (\<forall>n \<in> {''100'', ''101'', ''102'', ''103''}. count_list refs \<lparr>Type = T, Number = n\<rparr> = 1)"

declare finditer_from.simps [simp del]
declare sub_from.simps [simp del]
declare nat_digits.simps [simp del]

section \<open>What a match carries\<close>

lemma rmatch_length:
  "(j, c') \<in> set (rmatch r f s i c) \<Longrightarrow> length c' = length c"
proof (induction r arbitrary: i c j c')
  case (Seq a b)
  from Seq.prems obtain m d where "(m, d) \<in> set (rmatch a f s i c)"
    and "(j, c') \<in> set (rmatch b f s m d)" by auto
  with Seq.IH show ?case by force
qed (auto split: if_splits)

lemma rmatch_keeps:
  "(j, c') \<in> set (rmatch r f s i c) \<Longrightarrow> k < length c \<Longrightarrow> c ! k \<noteq> None \<Longrightarrow> c' ! k \<noteq> None"
proof (induction r arbitrary: i c j c')
  case (Seq a b)
  from Seq.prems(1) obtain m d where 1: "(m, d) \<in> set (rmatch a f s i c)" and 2: "(j, c') \<in> set (rmatch b f s m d)"
    by auto
  have "length d = length c" using rmatch_length [OF 1] .
  with Seq.IH(1) [OF 1 Seq.prems(2,3)] Seq.IH(2) [OF 2] Seq.prems(2) show ?case by simp
next
  case (Grp g a)
  from Grp.prems(1) obtain d where 1: "(j, d) \<in> set (rmatch a f s i c)"
    and 2: "c' = d[g - 1 := Some (take (j - i) (drop i s))]" by auto
  have "length d = length c" using rmatch_length [OF 1] .
  with Grp.IH [OF 1 Grp.prems(2,3)] 2 Grp.prems(2) show ?case
    by (cases "k = g - 1") auto
qed (auto split: if_splits)

lemma rmatch_must:
  "(j, c') \<in> set (rmatch r f s i c) \<Longrightarrow> g \<in> must r \<Longrightarrow> 0 < g \<Longrightarrow> g \<le> length c
   \<Longrightarrow> c' ! (g - 1) \<noteq> None"
proof (induction r arbitrary: i c j c')
  case (Seq a b)
  from Seq.prems(1) obtain m d where 1: "(m, d) \<in> set (rmatch a f s i c)" and 2: "(j, c') \<in> set (rmatch b f s m d)"
    by auto
  have len: "length d = length c" using rmatch_length [OF 1] .
  show ?case
  proof (cases "g \<in> must a")
    case True
    have "d ! (g - 1) \<noteq> None" using Seq.IH(1) [OF 1 True Seq.prems(3,4)] .
    then show ?thesis using rmatch_keeps [OF 2, of "g - 1"] len Seq.prems(3,4) by simp
  next
    case False
    then have "g \<in> must b" using Seq.prems(2) by simp
    then show ?thesis using Seq.IH(2) [OF 2] len Seq.prems(3,4) by simp
  qed
next
  case (Alt a b)
  then show ?case by auto
next
  case (Grp h a)
  from Grp.prems(1) obtain d where 1: "(j, d) \<in> set (rmatch a f s i c)"
    and 2: "c' = d[h - 1 := Some (take (j - i) (drop i s))]" by auto
  have len: "length d = length c" using rmatch_length [OF 1] .
  show ?case
  proof (cases "g = h")
    case True
    then show ?thesis using 2 len Grp.prems(3,4) by simp
  next
    case False
    then have "g \<in> must a" using Grp.prems(2) by simp
    from Grp.IH [OF 1 this Grp.prems(3,4)] show ?thesis using 2 len Grp.prems(3,4)
      by (cases "g - 1 = h - 1") auto
  qed
qed auto

lemma take_run:
  "n \<le> length (takeWhile P xs) \<Longrightarrow> list_all P (take n xs)"
proof (induction xs arbitrary: n)
  case Nil
  then show ?case by simp
next
  case (Cons x xs)
  then show ?case by (cases n) (auto split: if_splits)
qed

lemma rep_counts_bounds:
  "n \<in> set (rep_counts f k lo hi greedy s i) \<Longrightarrow>
   lo \<le> n \<and> n \<le> length (takeWhile (cls_match f k) (drop i s))"
  by (auto simp: rep_counts_def Let_def split: if_splits option.splits)

lemma digit_body_match:
  assumes "digit_body a" and "(j, c') \<in> set (rmatch a f s i c)"
  shows "c' = c \<and> decimal_string (take (j - i) (drop i s))"
proof -
  from assms(1) obtain lo hi greedy where a: "a = Rep (One IDigit) lo hi greedy" and lo: "0 < lo"
    by (cases a rule: digit_body.cases) auto
  from assms(2) a obtain n where n: "n \<in> set (rep_counts f (One IDigit) lo hi greedy s i)"
    and j: "j = i + n" and c: "c' = c" by auto
  from rep_counts_bounds [OF n] have b: "lo \<le> n" "n \<le> length (takeWhile (cls_match f (One IDigit)) (drop i s))"
    by auto
  have "list_all (cls_match f (One IDigit)) (take n (drop i s))" using take_run [OF b(2)] .
  then have all: "list_all is_decimal (take n (drop i s))" by (simp add: list_all_iff)
  have "n \<le> length (drop i s)" using b(2) length_takeWhile_le [of "cls_match f (One IDigit)" "drop i s"] by linarith
  then have "take n (drop i s) \<noteq> []" using lo b(1) by auto
  with all c j show ?thesis by (simp add: decimal_string_def)
qed

lemma caps_decimal_update:
  "caps_decimal c \<Longrightarrow> decimal_string t \<Longrightarrow> caps_decimal (c[k := Some t])"
  by (auto simp: caps_decimal_def list_all_iff dest!: set_update_subset_insert [THEN subsetD])

lemma rmatch_decimal:
  "digit_groups r \<Longrightarrow> (j, c') \<in> set (rmatch r f s i c) \<Longrightarrow> caps_decimal c \<Longrightarrow> caps_decimal c'"
proof (induction r arbitrary: i c j c')
  case (Seq a b)
  from Seq.prems(2) obtain m d where 1: "(m, d) \<in> set (rmatch a f s i c)" and 2: "(j, c') \<in> set (rmatch b f s m d)"
    by auto
  show ?case using Seq.IH(1) [OF _ 1 Seq.prems(3)] Seq.IH(2) [OF _ 2] Seq.prems(1) by simp
next
  case (Grp g a)
  from Grp.prems(2) obtain d where 1: "(j, d) \<in> set (rmatch a f s i c)"
    and 2: "c' = d[g - 1 := Some (take (j - i) (drop i s))]" by auto
  from Grp.prems(1) have "digit_body a" by simp
  from digit_body_match [OF this 1] 2 Grp.prems(3) show ?case
    by (simp add: caps_decimal_update)
qed (auto split: if_splits)


lemma match_at_good: "match_at p s i = Some m \<Longrightarrow> good_match p m \<and> m_start m = i"
proof -
  assume a: "match_at p s i = Some m"
  let ?c0 = "replicate (ngroups (p_regex p)) None :: caps"
  from a obtain j c where m: "m = \<lparr>m_start = i, m_end = j, m_groups = c\<rparr>"
    and jc: "(j, c) \<in> set (rmatch (p_regex p) (p_flags p) s i ?c0)"
    by (auto simp: match_at_def split: list.splits)
  have 0: "caps_decimal ?c0" by (simp add: caps_decimal_def list_all_iff)
  show ?thesis
    using rmatch_length [OF jc] rmatch_must [OF jc] rmatch_decimal [OF _ jc 0] m
    by (auto simp: good_match_def)
qed

lemma finditer_from_good:
  "m \<in> set (finditer_from p s i) \<Longrightarrow> good_match p m"
proof (induction p s i rule: finditer_from.induct)
  case (1 p s i)
  show ?case
  proof (cases "length s < i")
    case True
    with "1.prems" show ?thesis by (simp add: finditer_from.simps [of p s i])
  next
    case False
    show ?thesis
    proof (cases "match_at p s i")
      case None
      with False "1.prems" "1.IH"(1) show ?thesis by (simp add: finditer_from.simps [of p s i])
    next
      case (Some m')
      with False "1.prems" "1.IH"(2) match_at_good [OF Some] show ?thesis
        by (auto simp: finditer_from.simps [of p s i])
    qed
  qed
qed

lemma finditer_good: "m \<in> set (finditer p s) \<Longrightarrow> good_match p m"
  by (simp add: finditer_def finditer_from_good)

lemma re_search_good: "re_search p s = Some m \<Longrightarrow> good_match p m"
proof -
  assume "re_search p s = Some m"
  then have "m \<in> set (finditer p s)" by (auto simp: re_search_def split: list.splits)
  then show ?thesis by (rule finditer_good)
qed

section \<open>The finders: invariants\<close>

subsection \<open>Decimal strings\<close>

lemma decimal_not_space: "is_decimal c \<Longrightarrow> \<not> py_isspace c \<and> \<not> int_space c"
  by (auto simp: is_decimal_def py_isspace_def int_space_def Let_def)

lemma dropWhile_id: "t \<noteq> [] \<Longrightarrow> \<not> P (hd t) \<Longrightarrow> dropWhile P t = t"
  by (cases t) auto

lemma decimal_ends:
  assumes "decimal_string t"
  shows "is_decimal (hd t)" and "is_decimal (last t)"
  using assms by (auto simp: decimal_string_def list_all_iff)

lemma strip_decimal:
  assumes "decimal_string t"
  shows "rev (dropWhile py_isspace (rev (dropWhile py_isspace t))) = t"
    and "rev (dropWhile int_space (rev (dropWhile int_space t))) = t"
proof -
  have ne: "t \<noteq> []" using assms by (simp add: decimal_string_def)
  have h: "\<not> py_isspace (hd t)" "\<not> int_space (hd t)" "\<not> py_isspace (last t)" "\<not> int_space (last t)"
    using decimal_ends [OF assms] decimal_not_space by auto
  have r: "rev t \<noteq> []" "hd (rev t) = last t" using ne by (auto simp: hd_rev)
  show "rev (dropWhile py_isspace (rev (dropWhile py_isspace t))) = t"
    using ne h r by (simp add: dropWhile_id)
  show "rev (dropWhile int_space (rev (dropWhile int_space t))) = t"
    using ne h r by (simp add: dropWhile_id)
qed


lemma py_isdigit_decimal: "decimal_string t \<Longrightarrow> py_isdigit t"
  by (auto simp: decimal_string_def py_isdigit_def list_all_iff is_decimal_def py_isdigit_char_def Let_def)

lemma int_digits_decimal: "list_all is_decimal t \<Longrightarrow> \<exists>n. int_digits t acc = Some n"
  by (induction t acc rule: int_digits.induct) auto

lemma py_int_decimal:
  assumes "decimal_string t"
  shows "\<exists>n. py_int t = Some (int n)"
proof -
  from assms obtain c cs where t: "t = c # cs" and c: "is_decimal c" and cs: "list_all is_decimal cs"
    by (cases t) (auto simp: decimal_string_def)
  have sign: "c \<noteq> CHR ''-''" "c \<noteq> CHR ''+''" using c by (auto simp: is_decimal_def)
  from int_digits_decimal [OF cs] obtain n where "int_digits cs (digit_val c) = Some n" by blast
  then have "int_unsigned t = Some n" using t c by (simp add: int_unsigned_def)
  then show ?thesis
    using strip_decimal(2) [OF assms] t sign by (auto simp: py_int_def Let_def)
qed



subsection \<open>What the patterns of the tables capture\<close>

lemma lit_facts [simp]: "must (lit cs) = {}" "ngroups (lit cs) = 0" "digit_groups (lit cs)"
  by (induction cs) (simp_all add: lit_def)

lemmas part_defs = seqs_def s0_def s1_def d1_def w1_def any_opt_def esc_head_def acta_head_def
  actas_head_def numeros_kw_def numero_kw_def sep_opt_def instr_head_def comma_def act_kw_def
  esc_kw_def slash_num_def

subsection \<open>Outcomes\<close>

lemma state_of_simps [simp]: "state_of (Done st) = st" "state_of (Raised e st) = st"
  by (simp_all add: state_of_def)

lemma is_done_simps [simp]: "is_done (Done st)" "\<not> is_done (Raised e st)"
  by (simp_all add: is_done_def)

lemma soft_simps [simp]: "soft (Done st)" "soft (Raised e st) = (e = ValueError \<or> e = IndexError)"
  by (simp_all add: soft_def)

lemma is_done_eq: "is_done r \<longleftrightarrow> r = Done (state_of r)"
  by (cases r) auto

lemma state_of_try_except [simp]: "state_of (try_except r) = state_of r"
  by (cases r) (auto simp: try_except_def)

lemma is_done_try_except [simp]: "is_done (try_except r) = soft r"
  by (cases r) (auto simp: try_except_def)

lemma for_each_pres:
  assumes "\<forall>x \<in> set xs. \<forall>st. P st \<longrightarrow> P (state_of (body x st))" and "P st"
  shows "P (state_of (for_each body xs st))"
  using assms
proof (induction xs arbitrary: st)
  case Nil
  then show ?case by simp
next
  case (Cons x xs)
  have "P (state_of (body x st))" using Cons.prems by simp
  then show ?case using Cons by (cases "body x st") auto
qed

lemma for_each_done:
  assumes "\<forall>x \<in> set xs. \<forall>st. is_done (body x st)"
  shows "is_done (for_each body xs st)"
  using assms
proof (induction xs arbitrary: st)
  case Nil
  then show ?case by simp
next
  case (Cons x xs)
  have "is_done (body x st)" using Cons.prems by simp
  then show ?case using Cons by (cases "body x st") auto
qed

lemma for_each_soft:
  assumes "\<forall>x \<in> set xs. \<forall>st. soft (body x st)"
  shows "soft (for_each body xs st)"
  using assms
proof (induction xs arbitrary: st)
  case Nil
  then show ?case by simp
next
  case (Cons x xs)
  have "soft (body x st)" using Cons.prems by simp
  then show ?case using Cons by (cases "body x st") auto
qed

lemma then_do_pres:
  "P (state_of r) \<Longrightarrow> \<forall>st. P st \<longrightarrow> P (state_of (k st)) \<Longrightarrow> P (state_of (then_do r k))"
  by (cases r) (auto simp: then_do_def)

lemma then_do_done:
  "is_done r \<Longrightarrow> \<forall>st. is_done (k st) \<Longrightarrow> is_done (then_do r k)"
  by (cases r) (auto simp: then_do_def)

subsection \<open>Groups of a match\<close>

lemma group_decimal:
  "caps_decimal (m_groups m) \<Longrightarrow> group m g = Inr (Some t) \<Longrightarrow> decimal_string t"
proof -
  assume c: "caps_decimal (m_groups m)" and g: "group m g = Inr (Some t)"
  from g have r: "g - 1 < length (m_groups m)" "m_groups m ! (g - 1) = Some t"
    by (auto simp: group_def split: if_splits)
  have "Some t \<in> set (m_groups m)" using nth_mem [OF r(1)] r(2) by simp
  with c show ?thesis by (auto simp: caps_decimal_def list_all_iff)
qed

lemma good_must:
  "good_match p m \<Longrightarrow> g \<in> must (p_regex p) \<Longrightarrow> 0 < g \<Longrightarrow> g \<le> ngroups (p_regex p)
   \<Longrightarrow> \<exists>t. group m g = Inr (Some t)"
  by (auto simp: good_match_def group_def)

lemma strip_group_cases:
  "strip_group m g = Inr n \<Longrightarrow> \<exists>t. group m g = Inr (Some t) \<and> n = py_strip t"
  by (auto simp: strip_group_def split: sum.splits option.splits)


lemma groups_sat_True: "groups_sat (\<lambda>n. True) m"
  by (simp add: groups_sat_def)


subsection \<open>Steps that claim numbers\<close>

text \<open>
  A property \<open>P\<close> of the state that each claim of a number satisfying \<open>Q\<close> keeps is kept
  by every step, as long as the numbers a step claims satisfy \<open>Q\<close>.
\<close>

lemma claim_checked_pres:
  "keeps P Q T w \<Longrightarrow> P st \<Longrightarrow> Q n \<Longrightarrow> P (claim_checked T w n st)"
  by (simp add: claim_checked_def keeps_def)

lemma group_step_pres:
  "keeps P Q T w \<Longrightarrow> groups_sat Q m \<Longrightarrow> P st \<Longrightarrow> P (state_of (group_step T w m i st))"
  by (auto simp: group_step_def groups_sat_def split: sum.splits option.splits
           intro: claim_checked_pres)

lemma group_loop_pres:
  "keeps P Q T w \<Longrightarrow> groups_sat Q m \<Longrightarrow> P st
   \<Longrightarrow> P (state_of (for_each (group_step T w m) gs st))"
  by (rule for_each_pres) (auto intro: group_step_pres)

lemma list_step_pres:
  assumes "keeps P Q T w" and "groups_sat Q m" and "P st"
  shows "P (state_of (list_step T w m st))"
proof -
  have q: "Q n" if "strip_group m g = Inr n" for g n
    using strip_group_cases [OF that] assms(2) by (auto simp: groups_sat_def)
  show ?thesis
    using assms(1,3) q by (auto simp: list_step_def Let_def split: sum.splits
      intro!: claim_checked_pres [of P Q])
qed

lemma first_group_step_pres:
  assumes "keeps P Q T w" and "groups_sat Q m" and "P st"
  shows "P (state_of (first_group_step T w m st))"
proof -
  have q: "Q n" if "strip_group m g = Inr n" for g n
    using strip_group_cases [OF that] assms(2) by (auto simp: groups_sat_def)
  show ?thesis
    using assms(1,3) q by (auto simp: first_group_step_def split: sum.splits
      intro!: claim_checked_pres [of P Q])
qed

lemma fold_claim_pres:
  "keeps P Q T w \<Longrightarrow> \<forall>n \<in> set ns. Q (f n) \<Longrightarrow> P st \<Longrightarrow> P (fold (\<lambda>n. claim T w (f n)) ns st)"
  by (induction ns arbitrary: st) (auto simp: keeps_def)

lemma range_step_pres:
  assumes "keeps P Q T w" and "groups_sat Q m" and "P st"
  shows "P (state_of (range_step T w m st))"
proof (cases "int_group m 1")
  case (Inl e)
  then show ?thesis using assms(3) by (simp add: range_step_def)
next
  case (Inr a)
  show ?thesis
  proof (cases "int_group m 2")
    case (Inl e)
    then show ?thesis using Inr assms(3) by (simp add: range_step_def)
  next
    case b: (Inr b)
    have "\<forall>num \<in> set [a..b]. Q (py_str_int num)"
      using assms(2) Inr by (simp add: groups_sat_def)
    from fold_claim_pres [OF assms(1) this assms(3)]
    show ?thesis using Inr b assms(3) by (simp add: range_step_def)
  qed
qed

subsection \<open>Rows keep what claims keep\<close>

lemma keeps_row: "keeps_all P Q \<Longrightarrow> row_ok row \<Longrightarrow> keeps P Q (row_type_name row) (row_found_set row)"
  by (simp add: keeps_all_def row_ok_def)

lemma instrumentos_step_pres:
  "keeps_all P Q \<Longrightarrow> row_ok row \<Longrightarrow> groups_sat Q m \<Longrightarrow> P st
   \<Longrightarrow> P (state_of (instrumentos_step row m st))"
  by (simp add: instrumentos_step_def group_loop_pres [OF keeps_row])

lemma combined_step_pres:
  assumes "keeps_all P Q" and "groups_sat Q m" and "P st"
  shows "P (state_of (combined_step m st))"
proof -
  have e: "keeps P Q ''Escritura'' Found_escritura"
    using assms(1) [unfolded keeps_all_def, rule_format, of Found_escritura]
    by (simp add: type_name_of_def)
  have a: "keeps P Q ''Acta Fuera de Protocolo'' Found_acta"
    using assms(1) [unfolded keeps_all_def, rule_format, of Found_acta]
    by (simp add: type_name_of_def)
  have 1: "P (state_of (for_each (group_step ''Escritura'' Found_escritura m) [1..<4] st))"
    using group_loop_pres [OF e assms(2,3)] .
  show ?thesis
  proof (cases "for_each (group_step ''Escritura'' Found_escritura m) [1..<4] st")
    case (Done st')
    with 1 have "P st'" by simp
    from group_loop_pres [OF a assms(2) this]
    have "P (state_of (for_each (group_step ''Acta Fuera de Protocolo'' Found_acta m) [4..<7] st'))" .
    then show ?thesis unfolding combined_step_def state_of_try_except Done outcome.case .
  next
    case (Raised e st')
    from 1 show ?thesis unfolding combined_step_def state_of_try_except Raised outcome.case .
  qed
qed

lemma standard_step_pres:
  assumes "keeps_all P Q" and "row_ok row" and "groups_sat Q m" and "P st"
  shows "P (state_of (standard_step b row m st))"
proof -
  note k = keeps_row [OF assms(1,2)]
  show ?thesis
    using range_step_pres [OF k assms(3,4)] list_step_pres [OF k assms(3,4)]
      first_group_step_pres [OF k assms(3,4)] group_loop_pres [OF k assms(3,4)]
    by (simp add: standard_step_def)
qed

lemma potential_singles_sat:
  "potential_singles ms = Inr ns \<Longrightarrow> \<forall>m \<in> set ms. groups_sat Q m \<Longrightarrow> \<forall>n \<in> set ns. Q n"
proof (induction ms arbitrary: ns)
  case Nil
  then show ?case by simp
next
  case (Cons m ms)
  from Cons.prems(1) obtain n rest where n: "strip_group m 1 = Inr n"
    and rest: "potential_singles ms = Inr rest"
    and ns: "ns = (if n \<noteq> [] \<and> py_isdigit n then n # rest else rest)"
    by (auto split: sum.splits)
  from strip_group_cases [OF n] Cons.prems(2) have "Q n" by (auto simp: groups_sat_def)
  moreover have "\<forall>n \<in> set rest. Q n" using Cons.IH [OF rest] Cons.prems(2) by simp
  ultimately show ?case using ns by auto
qed

lemma single_row_pres:
  assumes "keeps_all P Q" and "row_ok row"
    and "\<forall>m \<in> set (finditer (row_pattern row) t). groups_sat Q m" and "P st"
  shows "P (state_of (single_row t row st))"
proof (cases "potential_singles (finditer (row_pattern row) t)")
  case (Inl e)
  then show ?thesis using assms(4) by (simp add: single_row_def)
next
  case (Inr ns)
  have "\<forall>n \<in> set ns. Q (id n)" using potential_singles_sat [OF Inr assms(3)] by simp
  from fold_claim_pres [OF keeps_row [OF assms(1,2)] this assms(4)]
  show ?thesis using Inr by (simp add: single_row_def)
qed

lemma instrumentos_rows_pres:
  assumes "keeps_all P Q" and "table_sat Q t rows" and "P st"
  shows "P (state_of (for_each (instrumentos_row t) rows st))"
proof (rule for_each_pres [where P = P, OF _ assms(3)], intro ballI allI impI)
  fix row s assume r: "row \<in> set rows" and s: "P s"
  from assms(2) r have ok: "row_ok row"
    and sat: "\<forall>m \<in> set (finditer (row_pattern row) t). groups_sat Q m"
    by (auto simp: table_sat_def)
  show "P (state_of (instrumentos_row t row s))"
    unfolding instrumentos_row_def
    by (rule for_each_pres [where P = P, OF _ s])
       (use sat instrumentos_step_pres [OF assms(1) ok] in blast)
qed

lemma standard_rows_pres:
  assumes "keeps_all P Q" and "table_sat Q t rows" and "P st"
  shows "P (state_of (for_each (standard_row b t) rows st))"
proof (rule for_each_pres [where P = P, OF _ assms(3)], intro ballI allI impI)
  fix row s assume r: "row \<in> set rows" and s: "P s"
  from assms(2) r have ok: "row_ok row"
    and sat: "\<forall>m \<in> set (finditer (row_pattern row) t). groups_sat Q m"
    by (auto simp: table_sat_def)
  show "P (state_of (standard_row b t row s))"
    unfolding standard_row_def
    by (rule for_each_pres [where P = P, OF _ s])
       (use sat standard_step_pres [OF assms(1) ok] in blast)
qed

lemma single_rows_pres:
  assumes "keeps_all P Q" and "table_sat Q t rows" and "P st"
  shows "P (state_of (for_each (single_row t) rows st))"
proof (rule for_each_pres [where P = P, OF _ assms(3)], intro ballI allI impI)
  fix row s assume r: "row \<in> set rows" and s: "P s"
  from assms(2) r have ok: "row_ok row"
    and sat: "\<forall>m \<in> set (finditer (row_pattern row) t). groups_sat Q m"
    by (auto simp: table_sat_def)
  show "P (state_of (single_row t row s))"
    using single_row_pres [OF assms(1) ok sat s] .
qed

lemma combined_pres:
  assumes "keeps_all P Q"
    and "\<forall>m \<in> set (finditer REGEX_INSTRUMENTOS_COMBINED t). groups_sat Q m" and "P st"
  shows "P (state_of (for_each combined_step (finditer REGEX_INSTRUMENTOS_COMBINED t) st))"
  by (rule for_each_pres [where P = P, OF _ assms(3)])
     (use assms(2) combined_step_pres [OF assms(1)] in blast)

lemma collect_pres:
  assumes k: "keeps_all P Q" and "all_sat Q t" and i: "P init_state"
  shows "P (state_of (collect_dba t))" and "P (state_of (collect_totalnot t))"
    and "P (state_of (collect_contpaq t))"
proof -
  have s: "table_sat Q t instrumentos_patterns" "table_sat Q t patterns_and_types"
    "table_sat Q t single_patterns"
    "\<forall>m \<in> set (finditer REGEX_INSTRUMENTOS_COMBINED t). groups_sat Q m"
    using assms(2) by (auto simp: all_sat_def)
  have 1: "P (state_of (for_each (instrumentos_row t) instrumentos_patterns init_state))"
    by (rule instrumentos_rows_pres [OF k s(1) i])
  have 2: "\<forall>st. P st \<longrightarrow> P (state_of (for_each combined_step (finditer REGEX_INSTRUMENTOS_COMBINED t) st))"
    using combined_pres [OF k s(4)] by blast
  have 3: "\<forall>st. P st \<longrightarrow> P (state_of (for_each (standard_row b t) patterns_and_types st))" for b
    using standard_rows_pres [OF k s(2)] by blast
  have 4: "\<forall>st. P st \<longrightarrow> P (state_of (for_each (single_row t) single_patterns st))"
    using single_rows_pres [OF k s(3)] by blast
  show "P (state_of (collect_dba t))"
    unfolding collect_dba_def
    by (rule then_do_pres [where P = P, OF then_do_pres [where P = P, OF then_do_pres [where P = P, OF 1 2] 3] 4])
  have 5: "P (state_of (for_each (standard_row False t) patterns_and_types init_state))"
    using 3 i by blast
  show "P (state_of (collect_totalnot t))"
    unfolding collect_totalnot_def by (rule then_do_pres [where P = P, OF 5 4])
  show "P (state_of (collect_contpaq t))"
    unfolding collect_contpaq_def by (rule then_do_pres [where P = P, OF 5 4])
qed

subsection \<open>The tables\<close>

lemma rows_ok:
  "\<forall>row \<in> set instrumentos_patterns. row_ok row"
  "\<forall>row \<in> set patterns_and_types. row_ok row"
  "\<forall>row \<in> set single_patterns. row_ok row"
  by (simp_all add: instrumentos_patterns_def patterns_and_types_def single_patterns_def
      row_ok_def type_name_of_def)

lemma table_digit_groups:
  "\<forall>row \<in> set instrumentos_patterns. digit_groups (p_regex (row_pattern row))"
  "\<forall>row \<in> set patterns_and_types. digit_groups (p_regex (row_pattern row))"
  "\<forall>row \<in> set single_patterns. digit_groups (p_regex (row_pattern row))"
  "digit_groups (p_regex REGEX_INSTRUMENTOS_COMBINED)"
  by (simp_all add: instrumentos_patterns_def patterns_and_types_def single_patterns_def
      REGEX_INSTRUMENTOS_ESC_SINGLE_def REGEX_INSTRUMENTOS_ESC_COMMA_def
      REGEX_INSTRUMENTOS_ACT_SINGLE_def REGEX_INSTRUMENTOS_ACT_COMMA_def
      REGEX_INSTRUMENTOS_COMBINED_def
      REGEX_ESCRITURA_RANGE_def REGEX_ACTA_RANGE_def
      REGEX_ACTA_RANGE_AL_def REGEX_ESCRITURA_LIST_Y_def REGEX_ACTA_LIST_Y_def
      REGEX_ACTA_SPECIAL_def REGEX_ESCRITURA_SINGLE_def REGEX_ACTA_SINGLE_def part_defs)


lemma all_sat_True: "all_sat (\<lambda>n. True) t"
  using rows_ok by (simp add: all_sat_def table_sat_def groups_sat_True)


subsection \<open>Claims keep the state consistent\<close>

lemma claimed_claim:
  "n \<notin> found_set w st \<Longrightarrow>
   claimed (found_add w n (st\<lparr>references := references st @ [r]\<rparr>))
   = insert \<lparr>Type = type_name_of w, Number = n\<rparr> (claimed st)"
  by (cases w) (auto simp: claimed_def found_add_def type_name_of_def)

lemma claimed_member:
  "\<lparr>Type = type_name_of w, Number = n\<rparr> \<in> claimed st \<longleftrightarrow> n \<in> found_set w st"
  by (cases w) (auto simp: claimed_def found_set_def type_name_of_def)

lemma references_found_add [simp]: "references (found_add w n st) = references st"
  by (cases w) (simp_all add: found_add_def)

lemma keeps_consistent: "keeps_all consistent (\<lambda>n. True)"
proof -
  have "consistent (claim (type_name_of w) w n st)" if c: "consistent st" for w n st
  proof (cases "n \<in> found_set w st")
    case True
    then show ?thesis using c by (simp add: claim_def)
  next
    case False
    let ?r = "\<lparr>Type = type_name_of w, Number = n\<rparr>"
    have "?r \<notin> set (references st)" using c False claimed_member [of w n st]
      by (simp add: consistent_def)
    then show ?thesis
      using c False claimed_claim [OF False, of ?r]
      by (simp add: claim_def consistent_def)
  qed
  then show ?thesis by (simp add: keeps_all_def keeps_def)
qed


lemma keeps_growth: "keeps_all (\<lambda>st. X \<subseteq> set (references st)) (\<lambda>n. True)"
  by (auto simp: keeps_all_def keeps_def claim_def)

lemma init_facts: "consistent init_state" "numbers_decimal init_state"
  by (simp_all add: consistent_def claimed_def numbers_decimal_def init_state_def)

lemmas collect_consistent = collect_pres [OF keeps_consistent all_sat_True init_facts(1)]

subsection \<open>No exception escapes\<close>

lemma soft_group_step: "soft (group_step T w m i st)"
  by (auto simp: group_step_def group_def split: sum.splits option.splits)

lemma soft_group_loop: "soft (for_each (group_step T w m) gs st)"
  by (rule for_each_soft) (simp add: soft_group_step)

lemma group_exn: "group m g = Inl e \<Longrightarrow> e = IndexError"
  by (simp add: group_def split: if_splits)

lemma soft_range_step:
  assumes "group m 1 \<noteq> Inr None" and "group m 2 \<noteq> Inr None"
  shows "soft (range_step T w m st)"
proof -
  have "e = ValueError \<or> e = IndexError" if "int_group m g = Inl e" "group m g \<noteq> Inr None" for g e
    using that group_exn [of m g] by (auto simp: int_group_def split: sum.splits option.splits)
  then show ?thesis using assms by (auto simp: range_step_def split: sum.splits)
qed

lemma strip_group_exn:
  "strip_group m g = Inl e \<Longrightarrow> group m g \<noteq> Inr None \<Longrightarrow> e = IndexError"
  using group_exn [of m g] by (auto simp: strip_group_def split: sum.splits option.splits)

lemma soft_list_step:
  "group m 1 \<noteq> Inr None \<Longrightarrow> group m 2 \<noteq> Inr None \<Longrightarrow> soft (list_step T w m st)"
  by (auto simp: list_step_def Let_def split: sum.splits dest: strip_group_exn)

lemma soft_first_group_step:
  "group m 1 \<noteq> Inr None \<Longrightarrow> soft (first_group_step T w m st)"
  by (auto simp: first_group_step_def split: sum.splits dest: strip_group_exn)

lemma instrumentos_step_done: "is_done (instrumentos_step row m st)"
  by (simp add: instrumentos_step_def soft_group_loop)

lemma combined_step_done: "is_done (combined_step m st)"
proof -
  let ?r = "for_each (group_step ''Escritura'' Found_escritura m) [1..<4] st"
  have s1: "soft ?r" by (rule soft_group_loop)
  have "soft (case ?r of
          Raised e st' \<Rightarrow> Raised e st'
        | Done st' \<Rightarrow> for_each (group_step ''Acta Fuera de Protocolo'' Found_acta m) [4..<7] st')"
  proof (cases ?r)
    case (Done st')
    show ?thesis unfolding Done outcome.case by (rule soft_group_loop)
  next
    case (Raised e st')
    from s1 show ?thesis unfolding Raised outcome.case .
  qed
  then show ?thesis unfolding combined_step_def is_done_try_except .
qed

lemma standard_table_facts:
  "\<forall>row \<in> set patterns_and_types.
     1 \<in> must (p_regex (row_pattern row)) \<and> 1 \<le> ngroups (p_regex (row_pattern row))
     \<and> (\<not> row_special row \<longrightarrow> 2 \<in> must (p_regex (row_pattern row))
          \<and> 2 \<le> ngroups (p_regex (row_pattern row)))"
  by (simp add: patterns_and_types_def REGEX_ESCRITURA_RANGE_def REGEX_ACTA_RANGE_def
      REGEX_ACTA_RANGE_AL_def REGEX_ESCRITURA_LIST_Y_def REGEX_ACTA_LIST_Y_def
      REGEX_ACTA_SPECIAL_def part_defs)

lemma single_table_facts:
  "\<forall>row \<in> set single_patterns.
     1 \<in> must (p_regex (row_pattern row)) \<and> 1 \<le> ngroups (p_regex (row_pattern row))"
  by (simp add: single_patterns_def REGEX_ESCRITURA_SINGLE_def REGEX_ACTA_SINGLE_def part_defs)

lemma standard_groups:
  assumes "row \<in> set patterns_and_types" and "good_match (row_pattern row) m"
  shows "group m 1 \<noteq> Inr None" and "\<not> row_special row \<Longrightarrow> group m 2 \<noteq> Inr None"
proof -
  have f: "1 \<in> must (p_regex (row_pattern row)) \<and> 1 \<le> ngroups (p_regex (row_pattern row))
    \<and> (\<not> row_special row \<longrightarrow> 2 \<in> must (p_regex (row_pattern row))
         \<and> 2 \<le> ngroups (p_regex (row_pattern row)))"
    using assms(1) standard_table_facts by blast
  from f good_must [OF assms(2), of 1] show "group m 1 \<noteq> Inr None" by auto
  from f good_must [OF assms(2), of 2] show "\<not> row_special row \<Longrightarrow> group m 2 \<noteq> Inr None" by auto
qed

lemma range_rows_not_special:
  "row \<in> set patterns_and_types \<Longrightarrow> row_is_range row \<Longrightarrow> \<not> row_special row"
  by (auto simp: patterns_and_types_def)

lemma standard_step_done:
  assumes "row \<in> set patterns_and_types" and "good_match (row_pattern row) m"
  shows "is_done (standard_step b row m st)"
  using standard_groups [OF assms] range_rows_not_special [OF assms(1)]
  by (simp add: standard_step_def soft_range_step soft_list_step soft_first_group_step
      soft_group_loop)

lemma potential_singles_done:
  "\<forall>m \<in> set ms. \<exists>t. group m 1 = Inr (Some t) \<Longrightarrow> \<exists>ns. potential_singles ms = Inr ns"
  by (induction ms) (auto simp: strip_group_def)

lemma single_row_done:
  assumes "row \<in> set single_patterns"
  shows "is_done (single_row t row st)"
proof -
  have f: "1 \<in> must (p_regex (row_pattern row))" "1 \<le> ngroups (p_regex (row_pattern row))"
    using assms single_table_facts by blast+
  have "\<exists>u. group m 1 = Inr (Some u)" if "m \<in> set (finditer (row_pattern row) t)" for m
    using good_must [OF finditer_good [OF that] f(1) _ f(2)] by simp
  then have "\<forall>m \<in> set (finditer (row_pattern row) t). \<exists>u. group m 1 = Inr (Some u)" by blast
  from potential_singles_done [OF this] show ?thesis by (auto simp: single_row_def)
qed

lemma rows_done:
  "is_done (for_each (instrumentos_row t) instrumentos_patterns st)"
  "is_done (for_each (standard_row b t) patterns_and_types st)"
  "is_done (for_each (single_row t) single_patterns st)"
  "is_done (for_each combined_step (finditer REGEX_INSTRUMENTOS_COMBINED t) st)"
proof -
  show "is_done (for_each (instrumentos_row t) instrumentos_patterns st)"
    by (rule for_each_done) (simp add: instrumentos_row_def for_each_done instrumentos_step_done)
  show "is_done (for_each (standard_row b t) patterns_and_types st)"
    by (rule for_each_done)
       (auto simp: standard_row_def intro!: for_each_done standard_step_done finditer_good)
  show "is_done (for_each (single_row t) single_patterns st)"
    by (rule for_each_done) (simp add: single_row_done)
  show "is_done (for_each combined_step (finditer REGEX_INSTRUMENTOS_COMBINED t) st)"
    by (rule for_each_done) (simp add: combined_step_done)
qed

lemma collect_done:
  "is_done (collect_dba t)" "is_done (collect_totalnot t)" "is_done (collect_contpaq t)"
  by (simp_all add: collect_dba_def collect_totalnot_def collect_contpaq_def then_do_done rows_done)

subsection \<open>The three finders\<close>

lemma finish_done: "is_done r \<Longrightarrow> finish r = Inr (sort_references (references (state_of r)))"
  by (cases r) (simp_all add: finish_def)

lemma find_references_dba_eq:
  "find_references_dba text =
     Inr (if text = [] then []
          else sort_references (references (state_of (collect_dba (text_for_processing text)))))"
  by (simp add: find_references_dba_def finish_done collect_done)

lemma find_references_totalnot_eq:
  "find_references_totalnot text =
     Inr (if text = [] then []
          else sort_references (references (state_of (collect_totalnot text))))"
  by (simp add: find_references_totalnot_def finish_done collect_done)

lemma find_references_contpaq_eq:
  "find_references_contpaq text =
     Inr (if text = [] then []
          else sort_references (references (state_of (collect_contpaq text))))"
  by (simp add: find_references_contpaq_def finish_done collect_done)

lemma set_sort_references [simp]: "set (sort_references refs) = set refs"
  by (simp add: sort_references_def)

lemma distinct_sort_references [simp]: "distinct (sort_references refs) = distinct refs"
  by (simp add: sort_references_def)

lemma distinct_keys:
  "distinct (map (\<lambda>r. (Type r, Number r)) refs) = distinct (refs :: reference list)"
  by (auto simp: distinct_map inj_on_def intro: reference.equality)

section \<open>The finders: uniqueness and digits\<close>

lemma contpaq_is_totalnot: "find_references_contpaq text = find_references_totalnot text"
  by (simp add: find_references_contpaq_def find_references_totalnot_def collect_contpaq_def
      collect_totalnot_def)

lemma eval_range_totalnot:
  "find_references_totalnot ''Esc Nos 100 A 103 Esc 101'' =
     Inr [\<lparr>Type = ''Escritura'', Number = ''100''\<rparr>, \<lparr>Type = ''Escritura'', Number = ''101''\<rparr>,
          \<lparr>Type = ''Escritura'', Number = ''102''\<rparr>, \<lparr>Type = ''Escritura'', Number = ''103''\<rparr>]"
  by code_simp

lemma eval_range_dba:
  "find_references_dba ''Esc Nos 100 A 103 Esc 101'' =
     Inr [\<lparr>Type = ''Escritura'', Number = ''100''\<rparr>, \<lparr>Type = ''Escritura'', Number = ''101''\<rparr>,
          \<lparr>Type = ''Escritura'', Number = ''102''\<rparr>, \<lparr>Type = ''Escritura'', Number = ''103''\<rparr>]"
  by code_simp

text \<open>
  Claim C2. Each of the three finders returns, for every text, a list in which no
  (Type, Number) pair occurs twice, whichever rules found the number.
\<close>

theorem references_unique:
  "(\<exists>refs. find_references_dba text = Inr refs \<and> distinct (map (\<lambda>r. (Type r, Number r)) refs))
   \<and> (\<exists>refs. find_references_totalnot text = Inr refs
         \<and> distinct (map (\<lambda>r. (Type r, Number r)) refs))
   \<and> (\<exists>refs. find_references_contpaq text = Inr refs
         \<and> distinct (map (\<lambda>r. (Type r, Number r)) refs))"
  using collect_consistent [of "text_for_processing text"] collect_consistent [of "text"]
  by (simp add: find_references_dba_eq find_references_totalnot_eq find_references_contpaq_eq
      distinct_keys consistent_def)

theorem references_unique_witness:
  "find_references_dba ''Esc Nos 100 A 103 Esc 101'' =
     Inr [\<lparr>Type = ''Escritura'', Number = ''100''\<rparr>, \<lparr>Type = ''Escritura'', Number = ''101''\<rparr>,
          \<lparr>Type = ''Escritura'', Number = ''102''\<rparr>, \<lparr>Type = ''Escritura'', Number = ''103''\<rparr>]
   \<and> distinct [(''Escritura'', ''100''), (''Escritura'', ''101''), (''Escritura'', ''102''),
                (''Escritura'', ''103'')]"
  using references_unique [of "''Esc Nos 100 A 103 Esc 101''"] eval_range_dba by simp



section \<open>Validation of the oracle's reply\<close>

lemma validate_type_allowed: "document_type (validate kvs) \<in> set allowed_types"
  by (simp add: validate_def Let_def allowed_types_def)

lemma validate_na:
  "document_type (validate kvs) = ''N/A'' \<Longrightarrow> document_id (validate kvs) = ''N/A''"
  by (simp add: validate_def Let_def split: if_splits)

lemma validate_unchanged:
  "required_value kvs ''document_type'' \<in> set allowed_types \<Longrightarrow>
   required_value kvs ''document_type'' \<noteq> ''N/A'' \<Longrightarrow>
   validate kvs = \<lparr>folio_number = required_value kvs ''folio_number'',
                   document_type = required_value kvs ''document_type'',
                   document_id = required_value kvs ''document_id''\<rparr>"
  by (simp add: validate_def Let_def)

lemma validated_result_cases:
  "validated_result x = Inr (Some v) \<Longrightarrow> \<exists>kvs. x = JObj kvs \<and> kvs \<noteq> [] \<and> v = validate kvs"
  by (auto simp: validated_result_def py_bool_def split: if_splits json.splits)

lemma parse_content_cases:
  "parse_content loads c = Inr (Some v) \<Longrightarrow> \<exists>kvs. kvs \<noteq> [] \<and> v = validate kvs"
  by (auto simp: parse_content_def split: option.splits sum.splits if_splits
           dest!: validated_result_cases)

lemma handle_response_cases:
  "handle_response loads r = Inr (Some v) \<Longrightarrow> \<exists>kvs. kvs \<noteq> [] \<and> v = validate kvs"
  by (auto simp: handle_response_def Let_def
           split: option.splits sum.splits if_splits json.splits dest!: parse_content_cases)

lemma query_cases:
  "query_llm_for_details post loads t h = Some v \<Longrightarrow> \<exists>kvs. kvs \<noteq> [] \<and> v = validate kvs"
  by (auto simp: query_llm_for_details_def Let_def
           split: http_result.splits sum.splits dest!: handle_response_cases)

text \<open>
  Claim C9. Whatever the exchange and the parser, a result the client returns has
  \<open>document_id = "N/A"\<close> whenever its \<open>document_type\<close> is \<open>"N/A"\<close>: validation
  overwrites an id the oracle supplied. A reply whose type is one of the allowed tags
  other than \<open>"N/A"\<close> is returned with the three fields as normalised, also when its id
  is \<open>"N/A"\<close>. The reply \<open>document_type = "N/A"\<close>, \<open>document_id = "123"\<close> validates to
  \<open>document_id = "N/A"\<close>.
\<close>

theorem oracle_type_id_consistency:
  "(query_llm_for_details post loads pdf_text filename_hint = Some v \<longrightarrow>
      document_type v = ''N/A'' \<longrightarrow> document_id v = ''N/A'')
   \<and> (document_type (validate kvs) = ''N/A'' \<longrightarrow> document_id (validate kvs) = ''N/A'')
   \<and> (required_value kvs ''document_type'' \<in> set allowed_types
        \<and> required_value kvs ''document_type'' \<noteq> ''N/A'' \<longrightarrow>
      validate kvs = \<lparr>folio_number = required_value kvs ''folio_number'',
                      document_type = required_value kvs ''document_type'',
                      document_id = required_value kvs ''document_id''\<rparr>)
   \<and> document_id (validate [(''document_type'', JStr ''N/A''), (''document_id'', JStr ''123'')])
       = ''N/A''"
proof -
  have "document_type v = ''N/A'' \<longrightarrow> document_id v = ''N/A''"
    if "query_llm_for_details post loads pdf_text filename_hint = Some v"
    using query_cases [OF that] validate_na by blast
  moreover have "document_id (validate [(''document_type'', JStr ''N/A''),
      (''document_id'', JStr ''123'')]) = ''N/A''"
    by code_simp
  ultimately show ?thesis
    using validate_na validate_unchanged by blast
qed

theorem oracle_type_id_consistency_witness:
  "query_llm_for_details
     (\<lambda>t h. Body (reply_with ''{\"document_type\": \"N/A\", \"document_id\": \"123\"}''))
     json_loads ''Factura'' ''a.pdf''
   = Some \<lparr>folio_number = ''N/A'', document_type = ''N/A'', document_id = ''N/A''\<rparr>
   \<and> query_llm_for_details
     (\<lambda>t h. Body (reply_with ''{\"folio_number\": 35, \"Document_Type\": \"Escritura\", \"document_id\": null}''))
     json_loads ''Factura'' ''a.pdf''
   = Some \<lparr>folio_number = ''35'', document_type = ''Escritura'', document_id = ''N/A''\<rparr>"
proof -
  let ?post = "\<lambda>(t::string) (h::string).
    Body (reply_with ''{\"document_type\": \"N/A\", \"document_id\": \"123\"}'')"
  have r: "query_llm_for_details ?post json_loads ''Factura'' ''a.pdf''
    = Some \<lparr>folio_number = ''N/A'', document_type = ''N/A'', document_id = ''N/A''\<rparr>"
    by code_simp
  have "document_id \<lparr>folio_number = ''N/A'', document_type = ''N/A'', document_id = ''N/A''\<rparr>
    = ''N/A''"
    using oracle_type_id_consistency [of ?post json_loads "''Factura''" "''a.pdf''"
      "\<lparr>folio_number = ''N/A'', document_type = ''N/A'', document_id = ''N/A''\<rparr>" "[]"] r
    by simp
  moreover have "query_llm_for_details
     (\<lambda>t h. Body (reply_with ''{\"folio_number\": 35, \"Document_Type\": \"Escritura\", \"document_id\": null}''))
     json_loads ''Factura'' ''a.pdf''
   = Some \<lparr>folio_number = ''35'', document_type = ''Escritura'', document_id = ''N/A''\<rparr>"
    by code_simp
  ultimately show ?thesis using r by simp
qed

section \<open>The order of the result\<close>








section \<open>Ranges\<close>

subsection \<open>A range whose end is below its start\<close>

lemma for_each_append:
  "for_each body (xs @ ys) st =
     (case for_each body xs st of Done st' \<Rightarrow> for_each body ys st' | Raised e st' \<Rightarrow> Raised e st')"
  by (induction xs arbitrary: st) (auto split: outcome.splits)

lemma for_each_skip:
  "\<forall>st. body x st = Done st \<Longrightarrow> for_each body (xs @ x # ys) st = for_each body (xs @ ys) st"
  by (simp add: for_each_append split: outcome.splits)

lemma range_match_ints:
  assumes "row \<in> set patterns_and_types" and "row_is_range row"
    and "m \<in> set (finditer (row_pattern row) t)"
  shows "\<exists>a b. int_group m 1 = Inr (int a) \<and> int_group m 2 = Inr (int b)"
proof -
  have g: "good_match (row_pattern row) m" using assms(3) by (rule finditer_good)
  have d: "caps_decimal (m_groups m)"
    using g table_digit_groups(2) assms(1) by (auto simp: good_match_def)
  have ns: "\<not> row_special row" using range_rows_not_special [OF assms(1,2)] .
  from standard_table_facts assms(1) ns
  have f: "1 \<in> must (p_regex (row_pattern row))" "1 \<le> ngroups (p_regex (row_pattern row))"
    "2 \<in> must (p_regex (row_pattern row))" "2 \<le> ngroups (p_regex (row_pattern row))"
    by blast+
  from good_must [OF g f(1) _ f(2)] obtain t1 where t1: "group m 1 = Inr (Some t1)" by auto
  from good_must [OF g f(3) _ f(4)] obtain t2 where t2: "group m 2 = Inr (Some t2)" by auto
  from py_int_decimal [OF group_decimal [OF d t1]] obtain a where a: "py_int t1 = Some (int a)" by blast
  from py_int_decimal [OF group_decimal [OF d t2]] obtain b where b: "py_int t2 = Some (int b)" by blast
  show ?thesis using t1 t2 a b by (auto simp: int_group_def)
qed

lemma reversed_range_step:
  "row_is_range row \<Longrightarrow> int_group m 1 = Inr a \<Longrightarrow> int_group m 2 = Inr b \<Longrightarrow> b < a
   \<Longrightarrow> standard_step all_special row m st = Done st"
  by (simp add: standard_step_def range_step_def try_except_def)

text \<open>
  Claim C7. A match of a range pattern always carries two integers; when the end is below
  the start, its step leaves the state as it was and raises nothing, and the loop over the
  matches goes on as if the match were not there.
\<close>

theorem invalid_range_skipped:
  assumes "row \<in> set patterns_and_types" and "row_is_range row"
    and "m \<in> set (finditer (row_pattern row) t)"
  shows "\<exists>a b. int_group m 1 = Inr a \<and> int_group m 2 = Inr b
     \<and> (b < a \<longrightarrow>
          (\<forall>st. standard_step all_special row m st = Done st)
          \<and> (\<forall>ms1 ms2 st. for_each (standard_step all_special row) (ms1 @ m # ms2) st
                = for_each (standard_step all_special row) (ms1 @ ms2) st))"
proof -
  from range_match_ints [OF assms] obtain a b
    where ab: "int_group m 1 = Inr (int a)" "int_group m 2 = Inr (int b)" by blast
  have "\<forall>st. standard_step all_special row m st = Done st" if "int b < int a"
    using reversed_range_step [OF assms(2) ab that] by blast
  then show ?thesis using ab for_each_skip [of "standard_step all_special row" m] by blast
qed

lemma eval_reversed_range:
  "finditer REGEX_ESCRITURA_RANGE ''Esc Nos 50 A 10 Esc 7''
     = [\<lparr>m_start = 0, m_end = 15, m_groups = [Some ''50'', Some ''10'']\<rparr>]"
  by code_simp

lemma eval_reversed_totalnot:
  "find_references_totalnot ''Esc Nos 50 A 10 Esc 7'' = Inr [\<lparr>Type = ''Escritura'', Number = ''7''\<rparr>]"
  by code_simp

theorem invalid_range_skipped_witness:
  "int_group \<lparr>m_start = 0, m_end = 15, m_groups = [Some ''50'', Some ''10'']\<rparr> 1 = Inr 50
   \<and> int_group \<lparr>m_start = 0, m_end = 15, m_groups = [Some ''50'', Some ''10'']\<rparr> 2 = Inr 10
   \<and> standard_step False (hd patterns_and_types)
        \<lparr>m_start = 0, m_end = 15, m_groups = [Some ''50'', Some ''10'']\<rparr> init_state
       = Done init_state
   \<and> find_references_totalnot ''Esc Nos 50 A 10 Esc 7''
       = Inr [\<lparr>Type = ''Escritura'', Number = ''7''\<rparr>]"
proof -
  let ?m = "\<lparr>m_start = 0, m_end = 15, m_groups = [Some ''50'', Some ''10'']\<rparr>"
  let ?row = "hd patterns_and_types"
  have r: "?row \<in> set patterns_and_types" "row_is_range ?row"
    "row_pattern ?row = REGEX_ESCRITURA_RANGE"
    by (simp_all add: patterns_and_types_def)
  have m: "?m \<in> set (finditer (row_pattern ?row) ''Esc Nos 50 A 10 Esc 7'')"
    using eval_reversed_range r(3) by simp
  have i: "int_group ?m 1 = Inr 50" "int_group ?m 2 = Inr 10" by code_simp+
  from invalid_range_skipped [OF r(1,2) m, of False] i
  have "standard_step False ?row ?m init_state = Done init_state" by auto
  then show ?thesis using i eval_reversed_totalnot by simp
qed

subsection \<open>A range and a single mention inside it\<close>

lemma standard_row_pres:
  assumes "keeps_all P Q" and "row_ok row"
    and "\<forall>m \<in> set (finditer (row_pattern row) t). groups_sat Q m" and "P st"
  shows "P (state_of (standard_row b t row st))"
  unfolding standard_row_def
  by (rule for_each_pres [where P = P, OF _ assms(4)])
     (use assms(3) standard_step_pres [OF assms(1,2)] in blast)

lemma standard_row_done:
  "row \<in> set patterns_and_types \<Longrightarrow> is_done (standard_row b t row st)"
  by (auto simp: standard_row_def intro!: for_each_done standard_step_done finditer_good)

lemma keeps_holds: "keeps_all (holds X) (\<lambda>n. True)"
  using keeps_consistent keeps_growth [of X]
  by (simp add: keeps_all_def keeps_def holds_def)

lemma for_each_reach:
  assumes "x \<in> set xs"
    and "\<forall>y \<in> set xs. \<forall>st. is_done (body y st)"
    and "\<forall>y \<in> set xs. \<forall>st. C st \<longrightarrow> C (state_of (body y st))"
    and "\<forall>st. C st \<longrightarrow> G (state_of (body x st))"
    and "\<forall>y \<in> set xs. \<forall>st. C st \<and> G st \<longrightarrow> G (state_of (body y st))"
    and "C st"
  shows "C (state_of (for_each body xs st)) \<and> G (state_of (for_each body xs st))"
  using assms
proof (induction xs arbitrary: st)
  case Nil
  then show ?case by simp
next
  case (Cons y ys)
  from Cons.prems(2) obtain st' where d: "body y st = Done st'"
    by (auto simp: is_done_eq)
  have "C (state_of (body y st))" using Cons.prems(3,6) by simp
  then have c': "C st'" using d by simp
  show ?case
  proof (cases "y = x")
    case True
    have "G (state_of (body x st))" using Cons.prems(4,6) by simp
    then have g': "G st'" using d True by simp
    have "(C (state_of (for_each body ys st'))) \<and> G (state_of (for_each body ys st'))"
      by (rule for_each_pres [where P = "\<lambda>s. C s \<and> G s"]) (use Cons.prems(3,5) c' g' in auto)
    then show ?thesis using d by simp
  next
    case False
    then have "x \<in> set ys" using Cons.prems(1) by simp
    from Cons.IH [OF this _ _ Cons.prems(4) _ c'] Cons.prems(2,3,5) d show ?thesis by simp
  qed
qed

lemma claim_member:
  "consistent st \<Longrightarrow>
   \<lparr>Type = type_name_of w, Number = n\<rparr> \<in> set (references (claim (type_name_of w) w n st))"
  using claimed_member [of w n st]
  by (auto simp: claim_def consistent_def)

lemma claim_holds:
  assumes "holds X st"
  shows "holds (insert \<lparr>Type = type_name_of w, Number = n\<rparr> X) (claim (type_name_of w) w n st)"
proof -
  have "holds X (claim (type_name_of w) w n st)"
    using keeps_holds [of X] assms by (simp add: keeps_all_def keeps_def)
  moreover have "\<lparr>Type = type_name_of w, Number = n\<rparr> \<in> set (references (claim (type_name_of w) w n st))"
    using assms by (simp add: claim_member holds_def)
  ultimately show ?thesis by (simp add: holds_def)
qed

lemma range_values:
  "py_int ''100'' = Some 100" "py_int ''103'' = Some 103"
  "[100..103] = [100, 101, 102, 103 :: int]"
  "py_str_int 100 = ''100''" "py_str_int 101 = ''101''" "py_str_int 102 = ''102''"
  "py_str_int 103 = ''103''"
  by code_simp+

lemma range_step_expands:
  assumes "m_groups m = [Some ''100'', Some ''103'']"
  shows "range_step T w m st =
     Done (claim T w ''103'' (claim T w ''102'' (claim T w ''101'' (claim T w ''100'' st))))"
proof -
  have g: "int_group m 1 = Inr 100" "int_group m 2 = Inr 103"
    using assms range_values(1,2) by (simp_all add: int_group_def group_def)
  show ?thesis using g by (simp add: range_step_def range_values(3-7) del: upto.simps)
qed

lemma range_step_establishes:
  assumes "row_ok row" and "row_is_range row" and "m_groups m = [Some ''100'', Some ''103'']"
    and "consistent st"
  shows "range_records (row_type_name row) \<subseteq> set (references (state_of (standard_step b row m st)))"
proof -
  let ?w = "row_found_set row"
  have T: "row_type_name row = type_name_of ?w" using assms(1) by (simp add: row_ok_def)
  have "holds {} st" using assms(4) by (simp add: holds_def)
  from claim_holds [OF claim_holds [OF claim_holds [OF claim_holds [OF this, of ?w "''100''"],
    of ?w "''101''"], of ?w "''102''"], of ?w "''103''"]
  show ?thesis
    using assms(2) T
    by (simp add: standard_step_def range_step_expands [OF assms(3)] holds_def range_records_def)
qed

lemma standard_rows_reach:
  assumes "row \<in> set patterns_and_types" and "row_is_range row"
    and "m \<in> set (finditer (row_pattern row) t)" and "m_groups m = [Some ''100'', Some ''103'']"
    and "consistent st"
  shows "holds (range_records (row_type_name row))
           (state_of (for_each (standard_row b t) patterns_and_types st))"
proof -
  let ?X = "range_records (row_type_name row)"
  let ?G = "\<lambda>s. ?X \<subseteq> set (references s)"
  have ok: "\<forall>r \<in> set patterns_and_types. row_ok r" by (rule rows_ok(2))
  have sat: "\<forall>m \<in> set (finditer (row_pattern r) t). groups_sat (\<lambda>n. True) m" for r
    by (simp add: groups_sat_True)
  have step_c: "consistent (state_of (standard_step b r m' s))" if "r \<in> set patterns_and_types"
    "consistent s" for r m' s
    using standard_step_pres [OF keeps_consistent _ groups_sat_True that(2)] ok that(1) by blast
  have step_g: "?G (state_of (standard_step b r m' s))" if "r \<in> set patterns_and_types"
    "consistent s" "?G s" for r m' s
    using standard_step_pres [OF keeps_holds [of ?X] _ groups_sat_True, where row = r and st = s and b = b and m = m'] ok that
    by (simp add: holds_def)
  have row_c: "consistent (state_of (standard_row b t r s))" if "r \<in> set patterns_and_types"
    "consistent s" for r s
    using standard_row_pres [OF keeps_consistent _ sat that(2)] ok that(1) by blast
  have row_g: "?G (state_of (standard_row b t r s))" if "r \<in> set patterns_and_types"
    "consistent s" "?G s" for r s
    using standard_row_pres [OF keeps_holds [of ?X] _ sat, where row = r and st = s and b = b] ok that
    by (simp add: holds_def)
  have inner: "?G (state_of (standard_row b t row s))" if s: "consistent s" for s
  proof -
    have "consistent (state_of (for_each (standard_step b row) (finditer (row_pattern row) t) s))
      \<and> ?G (state_of (for_each (standard_step b row) (finditer (row_pattern row) t) s))"
    proof (rule for_each_reach [where C = consistent and G = ?G, OF assms(3) _ _ _ _ s])
      show "\<forall>y \<in> set (finditer (row_pattern row) t). \<forall>st. is_done (standard_step b row y st)"
        using standard_step_done [OF assms(1)] finditer_good by blast
      show "\<forall>y \<in> set (finditer (row_pattern row) t). \<forall>st. consistent st \<longrightarrow>
          consistent (state_of (standard_step b row y st))"
        using step_c [OF assms(1)] by blast
      show "\<forall>st. consistent st \<longrightarrow> ?G (state_of (standard_step b row m st))"
        using range_step_establishes [OF _ assms(2,4)] ok assms(1) by blast
      show "\<forall>y \<in> set (finditer (row_pattern row) t). \<forall>st. consistent st \<and> ?G st \<longrightarrow>
          ?G (state_of (standard_step b row y st))"
        using step_g [OF assms(1)] by blast
    qed
    then show ?thesis by (simp add: standard_row_def)
  qed
  have "consistent (state_of (for_each (standard_row b t) patterns_and_types st))
      \<and> ?G (state_of (for_each (standard_row b t) patterns_and_types st))"
  proof (rule for_each_reach [where C = consistent and G = ?G, OF assms(1) _ _ _ _ assms(5)])
    show "\<forall>y \<in> set patterns_and_types. \<forall>st. is_done (standard_row b t y st)"
      by (simp add: standard_row_done)
    show "\<forall>y \<in> set patterns_and_types. \<forall>st. consistent st \<longrightarrow>
        consistent (state_of (standard_row b t y st))"
      using row_c by blast
    show "\<forall>st. consistent st \<longrightarrow> ?G (state_of (standard_row b t row st))"
      using inner by blast
    show "\<forall>y \<in> set patterns_and_types. \<forall>st. consistent st \<and> ?G st \<longrightarrow>
        ?G (state_of (standard_row b t y st))"
      using row_g by blast
  qed
  then show ?thesis by (simp add: holds_def)
qed

lemma collect_reach:
  assumes "row \<in> set patterns_and_types" and "row_is_range row"
    and "m \<in> set (finditer (row_pattern row) t)" and "m_groups m = [Some ''100'', Some ''103'']"
  shows "holds (range_records (row_type_name row)) (state_of (collect_totalnot t))"
    and "holds (range_records (row_type_name row)) (state_of (collect_contpaq t))"
    and "holds (range_records (row_type_name row)) (state_of (collect_dba t))"
proof -
  let ?P = "holds (range_records (row_type_name row))"
  have s: "table_sat (\<lambda>n. True) t single_patterns"
    "table_sat (\<lambda>n. True) t instrumentos_patterns"
    "\<forall>m \<in> set (finditer REGEX_INSTRUMENTOS_COMBINED t). groups_sat (\<lambda>n. True) m"
    using all_sat_True [of t] by (simp_all add: all_sat_def)
  have 4: "\<forall>st. ?P st \<longrightarrow> ?P (state_of (for_each (single_row t) single_patterns st))"
    using single_rows_pres [OF keeps_holds s(1)] by blast
  have 5: "?P (state_of (for_each (standard_row False t) patterns_and_types init_state))"
    by (rule standard_rows_reach [OF assms init_facts(1)])
  show "?P (state_of (collect_totalnot t))"
    unfolding collect_totalnot_def by (rule then_do_pres [where P = ?P, OF 5 4])
  show "?P (state_of (collect_contpaq t))"
    unfolding collect_contpaq_def by (rule then_do_pres [where P = ?P, OF 5 4])
  have 1: "consistent (state_of (for_each (instrumentos_row t) instrumentos_patterns init_state))"
    by (rule instrumentos_rows_pres [OF keeps_consistent s(2) init_facts(1)])
  have 2: "\<forall>st. consistent st \<longrightarrow>
      consistent (state_of (for_each combined_step (finditer REGEX_INSTRUMENTOS_COMBINED t) st))"
    using combined_pres [OF keeps_consistent s(3)] by blast
  have 12: "consistent (state_of (then_do
      (for_each (instrumentos_row t) instrumentos_patterns init_state)
      (for_each combined_step (finditer REGEX_INSTRUMENTOS_COMBINED t))))"
    by (rule then_do_pres [where P = consistent, OF 1 2])
  have 3: "\<forall>st. consistent st \<longrightarrow> ?P (state_of (for_each (standard_row True t) patterns_and_types st))"
    using standard_rows_reach [OF assms] by blast
  let ?r12 = "then_do (for_each (instrumentos_row t) instrumentos_patterns init_state)
      (for_each combined_step (finditer REGEX_INSTRUMENTOS_COMBINED t))"
  have "is_done ?r12" by (simp add: then_do_done rows_done)
  then obtain st12 where d: "?r12 = Done st12" by (auto simp: is_done_eq)
  have "consistent st12" using 12 d by simp
  then have 123: "?P (state_of (then_do ?r12 (for_each (standard_row True t) patterns_and_types)))"
    using 3 d by (simp add: then_do_def)
  show "?P (state_of (collect_dba t))"
    unfolding collect_dba_def by (rule then_do_pres [where P = ?P, OF 123 4])
qed

lemma count_list_distinct: "distinct xs \<Longrightarrow> x \<in> set xs \<Longrightarrow> count_list xs x = 1"
  by (induction xs) (auto simp: count_list_0_iff)

lemma holds_once_each:
  assumes "holds (range_records T) st"
  shows "once_each (sort_references (references st)) T"
proof -
  have d: "distinct (sort_references (references st))"
    using assms by (simp add: holds_def consistent_def)
  have "\<lparr>Type = T, Number = n\<rparr> \<in> set (sort_references (references st))"
    if "n \<in> {''100'', ''101'', ''102'', ''103''}" for n
    using assms that unfolding holds_def range_records_def set_sort_references by blast
  then show ?thesis
    unfolding once_each_def using count_list_distinct [OF d] by blast
qed

text \<open>
  Claim C6. When a range pattern matches with the groups 100 and 103 (as in 100 A 103), the
  finder returns a list in which each of 100, 101, 102 and 103 occurs exactly once in the
  category of the pattern, whatever else the text mentions (a single mention of 101
  included).
\<close>

theorem range_with_single_mention:
  assumes "row \<in> set patterns_and_types" and "row_is_range row"
    and "m_groups m = [Some ''100'', Some ''103'']" and "text \<noteq> []"
  shows "(m \<in> set (finditer (row_pattern row) text) \<longrightarrow>
            (\<exists>refs. find_references_totalnot text = Inr refs \<and> once_each refs (row_type_name row))
          \<and> (\<exists>refs. find_references_contpaq text = Inr refs \<and> once_each refs (row_type_name row)))
     \<and> (m \<in> set (finditer (row_pattern row) (text_for_processing text)) \<longrightarrow>
            (\<exists>refs. find_references_dba text = Inr refs \<and> once_each refs (row_type_name row)))"
  using collect_reach(1,2) [OF assms(1,2) _ assms(3), of "text"]
    collect_reach(3) [OF assms(1,2) _ assms(3), of "text_for_processing text"] assms(4)
  by (simp add: find_references_dba_eq find_references_totalnot_eq find_references_contpaq_eq
      holds_once_each)

lemma eval_range_match:
  "finditer REGEX_ESCRITURA_RANGE ''Esc Nos 100 A 103 Esc 101''
     = [\<lparr>m_start = 0, m_end = 17, m_groups = [Some ''100'', Some ''103'']\<rparr>]"
  by code_simp

lemma eval_single_match:
  "finditer REGEX_ESCRITURA_SINGLE ''Esc Nos 100 A 103 Esc 101''
     = [\<lparr>m_start = 18, m_end = 25, m_groups = [Some ''101'']\<rparr>]"
  by code_simp

theorem range_with_single_mention_witness:
  "finditer REGEX_ESCRITURA_RANGE ''Esc Nos 100 A 103 Esc 101''
     = [\<lparr>m_start = 0, m_end = 17, m_groups = [Some ''100'', Some ''103'']\<rparr>]
   \<and> finditer REGEX_ESCRITURA_SINGLE ''Esc Nos 100 A 103 Esc 101''
     = [\<lparr>m_start = 18, m_end = 25, m_groups = [Some ''101'']\<rparr>]
   \<and> find_references_totalnot ''Esc Nos 100 A 103 Esc 101'' =
     Inr [\<lparr>Type = ''Escritura'', Number = ''100''\<rparr>, \<lparr>Type = ''Escritura'', Number = ''101''\<rparr>,
          \<lparr>Type = ''Escritura'', Number = ''102''\<rparr>, \<lparr>Type = ''Escritura'', Number = ''103''\<rparr>]
   \<and> once_each [\<lparr>Type = ''Escritura'', Number = ''100''\<rparr>, \<lparr>Type = ''Escritura'', Number = ''101''\<rparr>,
          \<lparr>Type = ''Escritura'', Number = ''102''\<rparr>, \<lparr>Type = ''Escritura'', Number = ''103''\<rparr>]
        ''Escritura''"
proof -
  let ?m = "\<lparr>m_start = 0, m_end = 17, m_groups = [Some ''100'', Some ''103'']\<rparr>"
  let ?row = "hd patterns_and_types"
  have r: "?row \<in> set patterns_and_types" "row_is_range ?row"
    "row_pattern ?row = REGEX_ESCRITURA_RANGE" "row_type_name ?row = ''Escritura''"
    by (simp_all add: patterns_and_types_def)
  have m: "?m \<in> set (finditer (row_pattern ?row) ''Esc Nos 100 A 103 Esc 101'')"
    using eval_range_match r(3) by simp
  from range_with_single_mention [OF r(1,2), of ?m "''Esc Nos 100 A 103 Esc 101''"] m
  show ?thesis
    using eval_range_match eval_single_match eval_range_totalnot r(4) by simp
qed

end
